theory Spec2Isabelle
  imports Main "HOL-Library.AList"
begin

section \<open>Python values, errors and strings\<close>

text \<open>
  The module under study is \<^verbatim>\<open>bravado_core/resource.py\<close>. Exceptions are values of
  \<open>error\<close>; a function that can raise returns \<open>error + 'a\<close> with \<open>Inl\<close> the exception.
  \<open>ExternalError\<close> stands for any exception escaping a collaborator that lives outside the
  module (\<^verbatim>\<open>Operation.from_spec\<close>).
\<close>

datatype error =
    SwaggerMappingError string
  | AttributeError string
  | IndexError
  | ExternalError string

text \<open>
  \<^verbatim>\<open>str.lstrip(chars)\<close> removes every leading character that belongs to \<open>chars\<close>;
  \<^verbatim>\<open>str.split(sep)\<close> with a one-character separator cuts at every occurrence of the
  separator and keeps empty pieces, so the result always has at least one element.
\<close>

definition lstrip :: "string \<Rightarrow> string \<Rightarrow> string" where
  "lstrip chars s = dropWhile (\<lambda>c. c \<in> set chars) s"

fun str_split :: "char \<Rightarrow> string \<Rightarrow> string list" where
  "str_split sep [] = [[]]"
| "str_split sep (c # cs) =
     (if c = sep then [] # str_split sep cs
      else (case str_split sep cs of
              [] \<Rightarrow> [[c]]
            | t # ts \<Rightarrow> (c # t) # ts))"

section \<open>The path-to-resource-name resolver\<close>

text \<open>
  \<^verbatim>\<open>
  def convert_path_to_resource(path_name):
      tokens = path_name.lstrip('/').split('/')
      err_msg = "Could not extract resource name from path {0}"
      resource_name = tokens[0]
      if not resource_name:
          raise SwaggerMappingError(err_msg.format(path_name))
      return resource_name
  \<close>
  \<^verbatim>\<open>tokens[0]\<close> raises IndexError on an empty list; the branch is kept in the model.
\<close>

definition err_msg :: "string \<Rightarrow> string" where
  "err_msg path_name = ''Could not extract resource name from path '' @ path_name"

definition convert_path_to_resource :: "string \<Rightarrow> error + string" where
  "convert_path_to_resource path_name =
     (let tokens = str_split (CHR ''/'') (lstrip ''/'' path_name) in
      case tokens of
        [] \<Rightarrow> Inl IndexError
      | resource_name # _ \<Rightarrow>
          if resource_name = [] then Inl (SwaggerMappingError (err_msg path_name))
          else Inr resource_name)"

text \<open>
  The path segments of a path are the non-empty pieces between its slashes.
\<close>

definition segments :: "string \<Rightarrow> string list" where
  "segments path_name = filter (\<lambda>t. t \<noteq> []) (str_split (CHR ''/'') path_name)"

text \<open>
  The algorithm as the specification words it: strip a single leading slash, split on
  the slash, take the first token.
\<close>

definition strip_one_slash :: "string \<Rightarrow> string" where
  "strip_one_slash s = (case s of [] \<Rightarrow> [] | c # cs \<Rightarrow> if c = CHR ''/'' then cs else s)"

definition single_strip_resolver :: "string \<Rightarrow> error + string" where
  "single_strip_resolver path_name =
     (case str_split (CHR ''/'') (strip_one_slash path_name) of
        [] \<Rightarrow> Inl IndexError
      | resource_name # _ \<Rightarrow>
          if resource_name = [] then Inl (SwaggerMappingError (err_msg path_name))
          else Inr resource_name)"

section \<open>Python objects, the store and the collaborators\<close>

text \<open>
  A Python variable holds a reference. Operation objects live in a store (\<open>heap\<close>, a list
  indexed by address); \<open>PyOperation a\<close> is the reference to the Operation at address \<open>a\<close>,
  so that two references are the same instance exactly when their addresses are equal.
  The other constructors are the values a dictionary handed to \<^verbatim>\<open>Resource\<close> may also
  hold and the values attribute lookup on a Resource can return: \<^verbatim>\<open>None\<close>, booleans,
  integers, strings, dictionaries with string keys, and \<open>PyObject l\<close> for any other object
  (a bound method, a class), of which only a label is kept. \<open>py_bool\<close> is Python's truth
  test (\<^verbatim>\<open>not op\<close> is its negation): \<^verbatim>\<open>None\<close>, \<^verbatim>\<open>False\<close>, zero, the empty string and the
  empty dictionary are false, and an instance of a class that defines neither
  \<^verbatim>\<open>__bool__\<close> nor \<^verbatim>\<open>__len__\<close> is true.
\<close>

type_synonym ref = nat

datatype pyobj =
    PyNone
  | PyBool bool
  | PyInt int
  | PyStr string
  | PyDict "(string \<times> pyobj) list"
  | PyObject string
  | PyOperation ref

fun py_bool :: "pyobj \<Rightarrow> bool" where
  "py_bool PyNone = False"
| "py_bool (PyBool b) = b"
| "py_bool (PyInt i) = (i \<noteq> 0)"
| "py_bool (PyStr s) = (s \<noteq> [])"
| "py_bool (PyDict d) = (d \<noteq> [])"
| "py_bool (PyObject l) = True"
| "py_bool (PyOperation a) = True"

fun is_Operation :: "pyobj \<Rightarrow> bool" where
  "is_Operation (PyOperation a) = True"
| "is_Operation v = False"

text \<open>
  Modelled from the spec: the class \<^verbatim>\<open>Operation\<close> (\<^verbatim>\<open>bravado_core/operation.py\<close>) is
  imported by the module and is not part of it. The specification describes it as an
  opaque entity built from a specification fragment, a path string and an HTTP method
  string, that exposes an \<^verbatim>\<open>operation_id\<close> string.
\<close>

record operation =
  operation_id :: string
  op_path_name :: string
  op_http_method :: string

text \<open>
  The specification tree is JSON-like; \<^verbatim>\<open>{}\<close> and \<^verbatim>\<open>[]\<close>, the defaults the module
  passes to \<^verbatim>\<open>resolve\<close>, are \<open>JDict []\<close> and \<open>JList []\<close>.
\<close>

datatype json =
    JNull
  | JBool bool
  | JInt int
  | JStr string
  | JList "json list"
  | JDict "(string \<times> json) list"

text \<open>
  Modelled from the spec: the class \<^verbatim>\<open>Spec\<close> (\<^verbatim>\<open>bravado_core/spec.py\<close>) is not part of
  the module. The module uses its attribute \<^verbatim>\<open>spec_dict\<close> and three reference-resolving
  helpers, which the specification describes as a capability interface:
  \<^verbatim>\<open>resolve(container, key, default)\<close>, \<^verbatim>\<open>resolve_iteritems(container)\<close> (the key/value
  pairs of a mapping in its iteration order, each value resolved) and
  \<^verbatim>\<open>resolve_list(list)\<close> (a fresh concrete list of strings). They are parameters here.
\<close>

record swagger_spec =
  spec_dict :: json
  resolve :: "json \<Rightarrow> string \<Rightarrow> json \<Rightarrow> json"
  resolve_iteritems :: "json \<Rightarrow> (string \<times> json) list"
  resolve_list :: "json \<Rightarrow> string list"

text \<open>
  \<^verbatim>\<open>Operation.from_spec(swagger_spec, path_name, http_method, op_spec)\<close> is a parameter as
  well: it returns the new Operation or raises.
\<close>

type_synonym from_spec = "swagger_spec \<Rightarrow> string \<Rightarrow> string \<Rightarrow> json \<Rightarrow> error + operation"

text \<open>
  The part of the interpreter state the module touches: the store of Operation objects
  and the records emitted on the module's logger.
\<close>

record world =
  heap :: "operation list"
  debug_log :: "string list"

section \<open>Dictionaries\<close>

text \<open>
  A \<^verbatim>\<open>dict\<close> is an association list in insertion order: \<open>AList.update\<close> replaces the
  value of a key that is present, in place, and appends a new key at the end, as assignment
  to \<^verbatim>\<open>d[k]\<close> does. \<^verbatim>\<open>d.get(k)\<close> returns \<^verbatim>\<open>None\<close> for a missing key.
\<close>

type_synonym 'v dict = "(string \<times> 'v) list"

definition dict_get :: "pyobj dict \<Rightarrow> string \<Rightarrow> pyobj" where
  "dict_get d k = (case map_of d k of None \<Rightarrow> PyNone | Some v \<Rightarrow> v)"

text \<open>
  \<^verbatim>\<open>tag_to_ops = defaultdict(dict)\<close>; the statement \<^verbatim>\<open>tag_to_ops[tag][op_id] = op\<close> reads
  the bucket of \<open>tag\<close>, creating an empty one when the tag is new, and stores \<open>op\<close> in it.
\<close>

definition setitem_default :: "string \<Rightarrow> string \<Rightarrow> pyobj \<Rightarrow> pyobj dict dict \<Rightarrow> pyobj dict dict" where
  "setitem_default tag oid v tag_to_ops =
     AList.update tag
       (AList.update oid v (case map_of tag_to_ops tag of None \<Rightarrow> [] | Some b \<Rightarrow> b))
       tag_to_ops"

section \<open>The resource container\<close>

text \<open>
  \<^verbatim>\<open>
  class Resource(object):
      def __init__(self, name, ops):
          log.debug(u"Building resource '%s'" % name)
          self.name = name
          self.operations = ops

      def __getattr__(self, item):
          op = self.operations.get(item)
          if not op:
              raise AttributeError(u"Resource '%s' has no operation '%s'" %
                                   (self.name, item))
          return op
  \<close>
\<close>

record Resource =
  name :: string
  operations :: "pyobj dict"

definition quoted :: "string \<Rightarrow> string" where
  "quoted s = [CHR 0x27] @ s @ [CHR 0x27]"

definition building :: "string \<Rightarrow> string" where
  "building n = ''Building resource '' @ quoted n"

definition Resource_init :: "string \<Rightarrow> pyobj dict \<Rightarrow> string list \<Rightarrow> Resource \<times> string list" where
  "Resource_init n ops lg = (\<lparr>name = n, operations = ops\<rparr>, lg @ [building n])"

definition Resource_getattr :: "Resource \<Rightarrow> string \<Rightarrow> error + pyobj" where
  "Resource_getattr self item =
     (let opv = dict_get (operations self) item in
      if \<not> py_bool opv
      then Inl (AttributeError
                 (''Resource '' @ quoted (name self) @ '' has no operation '' @ quoted item))
      else Inr opv)"

text \<open>
  Attribute-style access \<^verbatim>\<open>resource.item\<close> calls \<^verbatim>\<open>__getattr__\<close> only when ordinary
  attribute lookup does not find \<open>item\<close>. Ordinary lookup finds the instance attributes
  that \<^verbatim>\<open>__init__\<close> sets (\<^verbatim>\<open>name\<close> and \<^verbatim>\<open>operations\<close>), the methods of the class body
  (\<^verbatim>\<open>__init__\<close>, \<^verbatim>\<open>__repr__\<close>, \<^verbatim>\<open>__getattr__\<close>, \<^verbatim>\<open>__dir__\<close>) and whatever the base class
  \<^verbatim>\<open>object\<close> and the class statement provide. The last part belongs to the interpreter
  and is the parameter \<open>base\<close>. Python consults the data descriptors of the class before
  the instance dictionary; neither \<^verbatim>\<open>Resource\<close> nor \<^verbatim>\<open>object\<close> has one called \<^verbatim>\<open>name\<close>
  or \<^verbatim>\<open>operations\<close>, so the instance attributes are looked up first here.
\<close>

definition instance_attrs :: "Resource \<Rightarrow> pyobj dict" where
  "instance_attrs self =
     [(''name'', PyStr (name self)), (''operations'', PyDict (operations self))]"

definition class_body :: "string list" where
  "class_body = [''__init__'', ''__repr__'', ''__getattr__'', ''__dir__'']"

definition ordinary_lookup :: "(string \<rightharpoonup> pyobj) \<Rightarrow> Resource \<Rightarrow> string \<Rightarrow> pyobj option" where
  "ordinary_lookup base self item =
     (case map_of (instance_attrs self) item of
        Some v \<Rightarrow> Some v
      | None \<Rightarrow> if item \<in> set class_body then Some (PyObject item) else base item)"

definition Resource_attr :: "(string \<rightharpoonup> pyobj) \<Rightarrow> Resource \<Rightarrow> string \<Rightarrow> error + pyobj" where
  "Resource_attr base self item =
     (case ordinary_lookup base self item of
        Some v \<Rightarrow> Inr v
      | None \<Rightarrow> Resource_getattr self item)"

section \<open>The grouping pass\<close>

text \<open>
  \<^verbatim>\<open>
  def build_resources(swagger_spec):
      tag_to_ops = defaultdict(dict)
      resolve = swagger_spec.resolve
      resolve_iteritems = swagger_spec.resolve_iteritems
      resolve_list = swagger_spec.resolve_list

      paths_spec = resolve(swagger_spec.spec_dict, 'paths', {})
      for path_name, path_spec in resolve_iteritems(paths_spec):
          for http_method, op_spec in resolve_iteritems(path_spec):
              if http_method == 'parameters':
                  continue
              op = Operation.from_spec(swagger_spec, path_name, http_method, op_spec)
              tags = resolve_list(resolve(op_spec, 'tags', []))
              if not tags:
                  tags.append(convert_path_to_resource(path_name))
              for tag in tags:
                  tag_to_ops[tag][op.operation_id] = op

      resources = {}
      for tag, ops in iteritems(tag_to_ops):
          resources[tag] = Resource(tag, ops)
      return resources
  \<close>
  Each loop is a recursive function over the sequence it iterates; the state of the two
  outer loops is the store together with \<open>tag_to_ops\<close>. A call of \<^verbatim>\<open>from_spec\<close> that
  returns allocates the new Operation at the next free address of the store.
\<close>

fun tags_loop :: "string list \<Rightarrow> string \<Rightarrow> pyobj \<Rightarrow> pyobj dict dict \<Rightarrow> pyobj dict dict" where
  "tags_loop [] oid v tag_to_ops = tag_to_ops"
| "tags_loop (tag # tags) oid v tag_to_ops =
     tags_loop tags oid v (setitem_default tag oid v tag_to_ops)"

definition entry_tags :: "swagger_spec \<Rightarrow> string \<Rightarrow> json \<Rightarrow> error + string list" where
  "entry_tags S path_name op_spec =
     (let tags = resolve_list S (resolve S op_spec ''tags'' (JList [])) in
      if tags = []
      then (case convert_path_to_resource path_name of
              Inl e \<Rightarrow> Inl e
            | Inr r \<Rightarrow> Inr (tags @ [r]))
      else Inr tags)"

fun methods_loop ::
  "from_spec \<Rightarrow> swagger_spec \<Rightarrow> string \<Rightarrow> (string \<times> json) list \<Rightarrow>
   operation list \<times> pyobj dict dict \<Rightarrow> error + operation list \<times> pyobj dict dict" where
  "methods_loop F S path_name [] st = Inr st"
| "methods_loop F S path_name ((http_method, op_spec) # rest) (hp, tag_to_ops) =
     (if http_method = ''parameters'' then methods_loop F S path_name rest (hp, tag_to_ops)
      else case F S path_name http_method op_spec of
             Inl e \<Rightarrow> Inl e
           | Inr opn \<Rightarrow>
               (case entry_tags S path_name op_spec of
                  Inl e \<Rightarrow> Inl e
                | Inr tags \<Rightarrow>
                    methods_loop F S path_name rest
                      (hp @ [opn],
                       tags_loop tags (operation_id opn) (PyOperation (length hp)) tag_to_ops)))"

fun paths_loop ::
  "from_spec \<Rightarrow> swagger_spec \<Rightarrow> (string \<times> json) list \<Rightarrow>
   operation list \<times> pyobj dict dict \<Rightarrow> error + operation list \<times> pyobj dict dict" where
  "paths_loop F S [] st = Inr st"
| "paths_loop F S ((path_name, path_spec) # rest) st =
     (case methods_loop F S path_name (resolve_iteritems S path_spec) st of
        Inl e \<Rightarrow> Inl e
      | Inr st' \<Rightarrow> paths_loop F S rest st')"

fun resources_loop ::
  "pyobj dict dict \<Rightarrow> Resource dict \<Rightarrow> string list \<Rightarrow> Resource dict \<times> string list" where
  "resources_loop [] resources lg = (resources, lg)"
| "resources_loop ((tag, ops) # rest) resources lg =
     (case Resource_init tag ops lg of
        (r, lg') \<Rightarrow> resources_loop rest (AList.update tag r resources) lg')"

definition build_resources ::
  "from_spec \<Rightarrow> swagger_spec \<Rightarrow> world \<Rightarrow> error + Resource dict \<times> world" where
  "build_resources F S w =
     (let paths_spec = resolve S (spec_dict S) ''paths'' (JDict []) in
      case paths_loop F S (resolve_iteritems S paths_spec) (heap w, []) of
        Inl e \<Rightarrow> Inl e
      | Inr (hp, tag_to_ops) \<Rightarrow>
          (case resources_loop tag_to_ops [] (debug_log w) of
             (resources, lg) \<Rightarrow> Inr (resources, \<lparr>heap = hp, debug_log = lg\<rparr>)))"

section \<open>Vocabulary for statements about the grouping pass\<close>

text \<open>
  The operation entries of a specification are the triples (path name, HTTP method,
  operation fragment) that the two nested loops visit, in their iteration order, without
  the method-level entries keyed \<^verbatim>\<open>parameters\<close>. Entry number \<open>i\<close> is the \<open>i\<close>-th
  element of \<open>op_entries\<close>.
\<close>

definition method_entries :: "swagger_spec \<Rightarrow> string \<times> json \<Rightarrow> (string \<times> string \<times> json) list" where
  "method_entries S pe =
     (case pe of (path_name, path_spec) \<Rightarrow>
        map (\<lambda>(http_method, op_spec). (path_name, http_method, op_spec))
          (filter (\<lambda>(http_method, op_spec). http_method \<noteq> ''parameters'')
             (resolve_iteritems S path_spec)))"

definition op_entries :: "swagger_spec \<Rightarrow> (string \<times> string \<times> json) list" where
  "op_entries S =
     concat (map (method_entries S)
       (resolve_iteritems S (resolve S (spec_dict S) ''paths'' (JDict []))))"

text \<open>
  An entry is processed without an exception when \<^verbatim>\<open>from_spec\<close> returns for it and its
  tag list can be formed. An entry takes the slot \<open>(tag, oid)\<close> when its Operation has the
  operation id \<open>oid\<close> and its (possibly synthesized) tag list contains \<open>tag\<close>. The slot
  that entry \<open>i\<close> wrote is overwritten when a later entry takes it too.
\<close>

definition entry_ok :: "from_spec \<Rightarrow> swagger_spec \<Rightarrow> string \<times> string \<times> json \<Rightarrow> bool" where
  "entry_ok F S e =
     (case e of (path_name, http_method, op_spec) \<Rightarrow>
        \<not> isl (F S path_name http_method op_spec) \<and> \<not> isl (entry_tags S path_name op_spec))"

definition takes_slot ::
  "from_spec \<Rightarrow> swagger_spec \<Rightarrow> string \<Rightarrow> string \<Rightarrow> string \<times> string \<times> json \<Rightarrow> bool" where
  "takes_slot F S tag oid e =
     (case e of (path_name, http_method, op_spec) \<Rightarrow>
        (case F S path_name http_method op_spec of
           Inl err \<Rightarrow> False
         | Inr opn \<Rightarrow> operation_id opn = oid)
        \<and> (case entry_tags S path_name op_spec of
             Inl err \<Rightarrow> False
           | Inr tags \<Rightarrow> tag \<in> set tags))"

definition overwritten :: "from_spec \<Rightarrow> swagger_spec \<Rightarrow> nat \<Rightarrow> string \<Rightarrow> string \<Rightarrow> bool" where
  "overwritten F S i tag oid = list_ex (takes_slot F S tag oid) (drop (Suc i) (op_entries S))"

text \<open>
  The keys of a result: every tag with the operation ids of its Resource, both in the
  order of the dictionaries.
\<close>

definition key_view :: "Resource dict \<Rightarrow> (string \<times> string list) list" where
  "key_view resources = map (\<lambda>(tag, r). (tag, map fst (operations r))) resources"

section \<open>The two nested loops as one pass\<close>

text \<open>
  For the proofs the nested loops are rewritten, in three steps, into a form without
  exceptions in the middle: \<open>entries_loop\<close> is the loop body run over the operation
  entries; \<open>resolve_all\<close> collects the Operation and the tag list of every entry, or the
  first exception; \<open>place\<close> stores the collected Operations from a given first address.
  \<open>slot\<close> reads one operation id of one bucket, \<open>wrap\<close> is the final loop as a map
  over the buckets, \<open>hit\<close> says that the \<open>k\<close>-th collected entry writes a given slot,
  \<open>kv\<close> forgets the stored references and \<open>buckets_filled\<close> says that no bucket is
  empty. Each of them is connected to the loops of the module by a lemma below.
\<close>

fun entries_loop ::
  "from_spec \<Rightarrow> swagger_spec \<Rightarrow> (string \<times> string \<times> json) list \<Rightarrow>
   operation list \<times> pyobj dict dict \<Rightarrow> error + operation list \<times> pyobj dict dict" where
  "entries_loop F S [] st = Inr st"
| "entries_loop F S ((path_name, http_method, op_spec) # rest) (hp, tag_to_ops) =
     (case F S path_name http_method op_spec of
        Inl e \<Rightarrow> Inl e
      | Inr opn \<Rightarrow>
          (case entry_tags S path_name op_spec of
             Inl e \<Rightarrow> Inl e
           | Inr tags \<Rightarrow>
               entries_loop F S rest
                 (hp @ [opn],
                  tags_loop tags (operation_id opn) (PyOperation (length hp)) tag_to_ops)))"

fun resolve_all ::
  "from_spec \<Rightarrow> swagger_spec \<Rightarrow> (string \<times> string \<times> json) list \<Rightarrow>
   error + (operation \<times> string list) list" where
  "resolve_all F S [] = Inr []"
| "resolve_all F S ((path_name, http_method, op_spec) # rest) =
     (case F S path_name http_method op_spec of
        Inl e \<Rightarrow> Inl e
      | Inr opn \<Rightarrow>
          (case entry_tags S path_name op_spec of
             Inl e \<Rightarrow> Inl e
           | Inr tags \<Rightarrow>
               (case resolve_all F S rest of
                  Inl e \<Rightarrow> Inl e
                | Inr rs \<Rightarrow> Inr ((opn, tags) # rs))))"

fun place :: "nat \<Rightarrow> (operation \<times> string list) list \<Rightarrow> pyobj dict dict \<Rightarrow> pyobj dict dict" where
  "place n [] t = t"
| "place n ((opn, tags) # rs) t =
     place (Suc n) rs (tags_loop tags (operation_id opn) (PyOperation n) t)"

definition slot :: "pyobj dict dict \<Rightarrow> string \<Rightarrow> string \<Rightarrow> pyobj option" where
  "slot t tag oid = (case map_of t tag of None \<Rightarrow> None | Some b \<Rightarrow> map_of b oid)"

definition wrap :: "pyobj dict dict \<Rightarrow> Resource dict" where
  "wrap t = map (\<lambda>(tag, ops). (tag, \<lparr>name = tag, operations = ops\<rparr>)) t"

definition hit :: "(operation \<times> string list) list \<Rightarrow> string \<Rightarrow> string \<Rightarrow> nat \<Rightarrow> bool" where
  "hit rs tag oid k \<longleftrightarrow> tag \<in> set (snd (rs ! k)) \<and> operation_id (fst (rs ! k)) = oid"

definition kv :: "pyobj dict dict \<Rightarrow> (string \<times> string list) list" where
  "kv t = map (\<lambda>(tag, b). (tag, map fst b)) t"

definition buckets_filled :: "pyobj dict dict \<Rightarrow> bool" where
  "buckets_filled t \<longleftrightarrow> list_all (\<lambda>kb. snd kb \<noteq> []) t"

section \<open>A reference-free specification\<close>

text \<open>
  An instance of the collaborators for concrete runs: a specification document without
  references, where resolving is a plain lookup, and a \<^verbatim>\<open>from_spec\<close> that reads the
  operation id from the key \<^verbatim>\<open>operationId\<close> of the fragment and raises when it is
  missing. \<open>strict_from_spec\<close> raises in addition whenever it is called for the method
  \<^verbatim>\<open>parameters\<close>.
\<close>

fun json_str :: "json \<Rightarrow> string list" where
  "json_str (JStr s) = [s]"
| "json_str v = []"

definition plain_resolve :: "json \<Rightarrow> string \<Rightarrow> json \<Rightarrow> json" where
  "plain_resolve node key dflt =
     (case node of
        JDict kvs \<Rightarrow> (case map_of kvs key of None \<Rightarrow> dflt | Some v \<Rightarrow> v)
      | _ \<Rightarrow> dflt)"

definition plain_iteritems :: "json \<Rightarrow> (string \<times> json) list" where
  "plain_iteritems node = (case node of JDict kvs \<Rightarrow> kvs | _ \<Rightarrow> [])"

definition plain_list :: "json \<Rightarrow> string list" where
  "plain_list node = (case node of JList xs \<Rightarrow> concat (map json_str xs) | _ \<Rightarrow> [])"

definition plain_spec :: "json \<Rightarrow> swagger_spec" where
  "plain_spec d =
     \<lparr>spec_dict = d, resolve = plain_resolve, resolve_iteritems = plain_iteritems,
      resolve_list = plain_list\<rparr>"

definition plain_from_spec :: from_spec where
  "plain_from_spec S path_name http_method op_spec =
     (case resolve S op_spec ''operationId'' JNull of
        JStr oid \<Rightarrow>
          Inr \<lparr>operation_id = oid, op_path_name = path_name, op_http_method = http_method\<rparr>
      | _ \<Rightarrow> Inl (ExternalError ''operationId''))"

definition strict_from_spec :: from_spec where
  "strict_from_spec S path_name http_method op_spec =
     (if http_method = ''parameters'' then Inl (ExternalError ''parameters'')
      else plain_from_spec S path_name http_method op_spec)"

text \<open>
  For concrete attribute lookups: the attributes that \<^verbatim>\<open>object\<close> has in Python 3 and
  those the class statement adds to \<^verbatim>\<open>Resource\<close>.
\<close>

definition object_attrs :: "string \<rightharpoonup> pyobj" where
  "object_attrs =
     map_of ((''__module__'', PyStr ''bravado_core.resource'') # (''__weakref__'', PyNone) #
       map (\<lambda>l. (l, PyObject l))
         [''__class__'', ''__delattr__'', ''__dict__'', ''__doc__'', ''__eq__'',
          ''__format__'', ''__ge__'', ''__getattribute__'', ''__getstate__'', ''__gt__'',
          ''__hash__'', ''__init_subclass__'', ''__le__'', ''__lt__'', ''__ne__'',
          ''__new__'', ''__reduce__'', ''__reduce_ex__'', ''__setattr__'', ''__sizeof__'',
          ''__str__'', ''__subclasshook__''])"

text \<open>
  Three documents. \<open>petstore\<close> has an untagged operation under \<^verbatim>\<open>/pet/findByStatus\<close>
  next to a shared \<^verbatim>\<open>parameters\<close> entry, an operation tagged \<^verbatim>\<open>store\<close> and one tagged
  \<^verbatim>\<open>pet\<close> and \<^verbatim>\<open>store\<close>. In \<open>dup_doc\<close> two operations with the tag \<^verbatim>\<open>pet\<close> share the
  operation id \<^verbatim>\<open>dup\<close>. In \<open>twice_doc\<close> one operation lists the tag \<^verbatim>\<open>pet\<close> twice.
  \<open>world0\<close> is the empty store with an empty log; \<open>petstore_resources\<close> and
  \<open>petstore_world\<close> are the result of the build of \<open>petstore\<close> from \<open>world0\<close>.
\<close>

definition petstore :: json where
  "petstore = JDict [(''paths'', JDict
     [(''/pet/findByStatus'', JDict
         [(''parameters'', JList []),
          (''get'', JDict [(''operationId'', JStr ''findPetsByStatus'')])]),
      (''/store/inventory'', JDict
         [(''get'', JDict [(''operationId'', JStr ''getInventory''),
                           (''tags'', JList [JStr ''store''])])]),
      (''/pet/{petId}'', JDict
         [(''get'', JDict [(''operationId'', JStr ''x''),
                           (''tags'', JList [JStr ''pet'', JStr ''store''])])])])]"

definition dup_doc :: json where
  "dup_doc = JDict [(''paths'', JDict
     [(''/pet'', JDict
         [(''get'', JDict [(''operationId'', JStr ''dup''), (''tags'', JList [JStr ''pet''])]),
          (''post'', JDict [(''operationId'', JStr ''dup''), (''tags'', JList [JStr ''pet''])])])])]"

definition twice_doc :: json where
  "twice_doc = JDict [(''paths'', JDict
     [(''/pet'', JDict
         [(''get'', JDict [(''operationId'', JStr ''x''),
                           (''tags'', JList [JStr ''pet'', JStr ''pet''])])])])]"

definition world0 :: world where
  "world0 = \<lparr>heap = [], debug_log = []\<rparr>"

definition petstore_resources :: "Resource dict" where
  "petstore_resources =
     [(''pet'', \<lparr>name = ''pet'',
                operations = [(''findPetsByStatus'', PyOperation 0), (''x'', PyOperation 2)]\<rparr>),
      (''store'', \<lparr>name = ''store'',
                  operations = [(''getInventory'', PyOperation 1), (''x'', PyOperation 2)]\<rparr>)]"

definition petstore_world :: world where
  "petstore_world =
     \<lparr>heap =
        [\<lparr>operation_id = ''findPetsByStatus'', op_path_name = ''/pet/findByStatus'',
          op_http_method = ''get''\<rparr>,
         \<lparr>operation_id = ''getInventory'', op_path_name = ''/store/inventory'',
          op_http_method = ''get''\<rparr>,
         \<lparr>operation_id = ''x'', op_path_name = ''/pet/{petId}'', op_http_method = ''get''\<rparr>],
      debug_log = [building ''pet'', building ''store'']\<rparr>"

section \<open>Facts about splitting\<close>

lemma str_split_not_Nil: "str_split sep s \<noteq> []"
  by (induction s) (auto split: list.splits)

lemma hd_str_split: "hd (str_split sep s) = takeWhile (\<lambda>c. c \<noteq> sep) s"
proof (induction s)
  case Nil
  show ?case by simp
next
  case (Cons c cs)
  then show ?case
    using str_split_not_Nil [of sep cs] by (auto split: list.splits)
qed

lemma segments_leading_slash:
  "segments (CHR ''/'' # cs) = segments cs"
  by (simp add: segments_def)

lemma segments_lstrip: "segments (lstrip ''/'' s) = segments s"
  by (induction s) (simp_all add: lstrip_def segments_leading_slash)

lemma segments_hd:
  assumes "s \<noteq> []" and "hd s \<noteq> CHR ''/''"
  shows "segments s = hd (str_split (CHR ''/'') s) # filter (\<lambda>t. t \<noteq> []) (tl (str_split (CHR ''/'') s))"
proof (cases s)
  case Nil
  with assms show ?thesis by simp
next
  case (Cons c cs)
  with assms have "c \<noteq> CHR ''/''" by simp
  with Cons show ?thesis
    using str_split_not_Nil [of "CHR ''/''" cs]
    by (auto simp: segments_def split: list.splits)
qed

lemma lstrip_cases:
  "lstrip ''/'' s = [] \<or> hd (lstrip ''/'' s) \<noteq> CHR ''/''"
  unfolding lstrip_def using hd_dropWhile [of "\<lambda>c. c \<in> set ''/''" s] by auto

lemma convert_path_to_resource_takeWhile:
  "convert_path_to_resource p =
     (let t = takeWhile (\<lambda>c. c \<noteq> CHR ''/'') (dropWhile (\<lambda>c. c = CHR ''/'') p) in
      if t = [] then Inl (SwaggerMappingError (err_msg p)) else Inr t)"
proof -
  have l: "lstrip ''/'' p = dropWhile (\<lambda>c. c = CHR ''/'') p"
    by (simp add: lstrip_def)
  obtain t ts where ts: "str_split (CHR ''/'') (lstrip ''/'' p) = t # ts"
    using str_split_not_Nil [of "CHR ''/''" "lstrip ''/'' p"] by (cases "str_split (CHR ''/'') (lstrip ''/'' p)") auto
  then have "t = takeWhile (\<lambda>c. c \<noteq> CHR ''/'') (lstrip ''/'' p)"
    using hd_str_split [of "CHR ''/''" "lstrip ''/'' p"] by simp
  with ts l show ?thesis
    by (simp add: convert_path_to_resource_def Let_def)
qed

lemma first_token_empty_iff:
  "takeWhile (\<lambda>c. c \<noteq> CHR ''/'') (dropWhile (\<lambda>c. c = CHR ''/'') p) = [] \<longleftrightarrow>
   set p \<subseteq> {CHR ''/''}"
proof -
  let ?d = "dropWhile (\<lambda>c. c = CHR ''/'') p"
  have "takeWhile (\<lambda>c. c \<noteq> CHR ''/'') ?d = [] \<longleftrightarrow> ?d = []"
    using hd_dropWhile [of "\<lambda>c. c = CHR ''/''" p]
    by (cases ?d) (auto simp: takeWhile_eq_Nil_iff)
  also have "\<dots> \<longleftrightarrow> set p \<subseteq> {CHR ''/''}"
    by (auto simp: dropWhile_eq_Nil_conv)
  finally show ?thesis .
qed

lemma convert_path_to_resource_segments:
  assumes "segments p \<noteq> []"
  shows "convert_path_to_resource p = Inr (hd (segments p))"
proof -
  let ?s = "lstrip ''/'' p"
  from assms have ne: "segments ?s \<noteq> []" by (simp add: segments_lstrip)
  then have "?s \<noteq> []" by (auto simp: segments_def)
  with lstrip_cases [of p] have "hd ?s \<noteq> CHR ''/''" by simp
  from segments_hd [OF \<open>?s \<noteq> []\<close> this]
  have seg: "hd (segments ?s) = hd (str_split (CHR ''/'') ?s)" by simp
  have "takeWhile (\<lambda>c. c \<noteq> CHR ''/'') ?s \<noteq> []"
    using \<open>?s \<noteq> []\<close> \<open>hd ?s \<noteq> CHR ''/''\<close> by (cases ?s) auto
  then have "hd (str_split (CHR ''/'') ?s) \<noteq> []"
    by (simp only: hd_str_split not_False_eq_True)
  then show ?thesis
    using seg str_split_not_Nil [of "CHR ''/''" ?s]
    by (auto simp: convert_path_to_resource_def Let_def segments_lstrip split: list.splits)
qed

lemma segments_Nil_convert:
  assumes "segments p = []"
  shows "convert_path_to_resource p = Inl (SwaggerMappingError (err_msg p))"
proof -
  let ?s = "lstrip ''/'' p"
  have "hd (str_split (CHR ''/'') ?s) \<in> set (str_split (CHR ''/'') ?s)"
    using str_split_not_Nil by simp
  moreover have "segments ?s = []" using assms by (simp add: segments_lstrip)
  ultimately have "hd (str_split (CHR ''/'') ?s) = []"
    by (auto simp: segments_def filter_empty_conv)
  then show ?thesis
    using str_split_not_Nil [of "CHR ''/''" ?s]
    by (auto simp: convert_path_to_resource_def Let_def split: list.splits)
qed

lemma convert_path_to_resource_Inr_iff:
  "convert_path_to_resource p = Inr t \<longleftrightarrow> segments p \<noteq> [] \<and> t = hd (segments p)"
proof (cases "segments p = []")
  case True
  then show ?thesis by (simp add: segments_Nil_convert)
next
  case False
  then show ?thesis by (auto simp: convert_path_to_resource_segments)
qed

section \<open>Facts about the grouping pass\<close>

text \<open>
  The nested loops are the pass over the operation entries.
\<close>

lemma methods_loop_entries:
  "methods_loop F S p ms st =
   entries_loop F S
     (map (\<lambda>(m, sp). (p, m, sp)) (filter (\<lambda>(m, sp). m \<noteq> ''parameters'') ms)) st"
  by (induction F S p ms st rule: methods_loop.induct) (auto split: sum.splits)

lemma entries_loop_append:
  "entries_loop F S (xs @ ys) st =
   (case entries_loop F S xs st of Inl e \<Rightarrow> Inl e | Inr st' \<Rightarrow> entries_loop F S ys st')"
  by (induction F S xs st rule: entries_loop.induct) (auto split: sum.splits)

lemma paths_loop_entries:
  "paths_loop F S ps st = entries_loop F S (concat (map (method_entries S) ps)) st"
proof (induction ps arbitrary: st)
  case Nil
  show ?case by simp
next
  case (Cons pe ps)
  obtain p sp where pe: "pe = (p, sp)" by (cases pe)
  show ?case
    by (simp add: pe entries_loop_append methods_loop_entries method_entries_def Cons.IH
          split: sum.splits)
qed

lemma entries_loop_resolve_all:
  "entries_loop F S es (hp, t) =
   (case resolve_all F S es of
      Inl e \<Rightarrow> Inl e
    | Inr rs \<Rightarrow> Inr (hp @ map fst rs, place (length hp) rs t))"
proof (induction es arbitrary: hp t)
  case Nil
  show ?case by simp
next
  case (Cons x es)
  obtain p m sp where x: "x = (p, m, sp)" by (cases x)
  show ?case
    by (simp add: x Cons.IH split: sum.splits)
qed

text \<open>
  The final loop wraps every bucket, in order, and logs one record per bucket: the keys of
  \<open>tag_to_ops\<close> are distinct, so every assignment to \<^verbatim>\<open>resources[tag]\<close> appends.
\<close>

lemma update_fresh:
  "k \<notin> fst ` set al \<Longrightarrow> AList.update k v al = al @ [(k, v)]"
  by (induction al) auto

lemma resources_loop_wrap:
  "distinct (map fst t) \<Longrightarrow> fst ` set t \<inter> fst ` set acc = {} \<Longrightarrow>
   resources_loop t acc lg = (acc @ wrap t, lg @ map building (map fst t))"
proof (induction t arbitrary: acc lg)
  case Nil
  show ?case by (simp add: wrap_def)
next
  case (Cons x t)
  obtain tag ops where x: "x = (tag, ops)" by (cases x)
  from Cons.prems x have fresh: "tag \<notin> fst ` set acc" by auto
  have d: "distinct (map fst t)" using Cons.prems by simp
  have "fst ` set t \<inter> fst ` set (acc @ [(tag, \<lparr>name = tag, operations = ops\<rparr>)]) = {}"
    using Cons.prems x by auto
  from Cons.IH [OF d this]
  show ?case
    by (simp add: x Resource_init_def update_fresh [OF fresh] wrap_def building_def)
qed

lemma distinct_setitem_default:
  "distinct (map fst t) \<Longrightarrow> distinct (map fst (setitem_default tag oid v t))"
  by (simp add: setitem_default_def distinct_update)

lemma distinct_tags_loop:
  "distinct (map fst t) \<Longrightarrow> distinct (map fst (tags_loop tags oid v t))"
  by (induction tags arbitrary: t) (simp_all add: distinct_setitem_default)

lemma distinct_place:
  "distinct (map fst t) \<Longrightarrow> distinct (map fst (place n rs t))"
  by (induction n rs t rule: place.induct) (simp_all add: distinct_tags_loop)

lemma map_fst_wrap: "map fst (wrap t) = map fst t"
  by (induction t) (auto simp: wrap_def)

lemma map_of_wrap:
  "map_of (wrap t) tag = map_option (\<lambda>ops. \<lparr>name = tag, operations = ops\<rparr>) (map_of t tag)"
  by (induction t) (auto simp: wrap_def)

lemma wrap_slot:
  "(\<exists>r. map_of (wrap t) tag = Some r \<and> map_of (operations r) oid = Some v)
   \<longleftrightarrow> slot t tag oid = Some v"
  by (auto simp: map_of_wrap slot_def split: option.splits)

text \<open>
  \<open>build_resources\<close> in closed form, and what a run that returns gives.
\<close>

lemma build_resources_eq:
  "build_resources F S w =
   (case resolve_all F S (op_entries S) of
      Inl e \<Rightarrow> Inl e
    | Inr rs \<Rightarrow>
        Inr (wrap (place (length (heap w)) rs []),
             \<lparr>heap = heap w @ map fst rs,
              debug_log = debug_log w
                @ map building (map fst (place (length (heap w)) rs []))\<rparr>))"
proof (cases "resolve_all F S (op_entries S)")
  case (Inl e)
  then show ?thesis
    by (simp add: build_resources_def paths_loop_entries entries_loop_resolve_all
          op_entries_def)
next
  case (Inr rs)
  have "distinct (map fst (place (length (heap w)) rs []))"
    by (rule distinct_place) simp
  then have "resources_loop (place (length (heap w)) rs []) [] (debug_log w) =
      (wrap (place (length (heap w)) rs []),
       debug_log w @ map building (map fst (place (length (heap w)) rs [])))"
    using resources_loop_wrap [of "place (length (heap w)) rs []" "[]" "debug_log w"] by simp
  with Inr show ?thesis
    by (simp add: build_resources_def paths_loop_entries entries_loop_resolve_all
          op_entries_def)
qed

lemma build_resources_Inr:
  assumes "build_resources F S w = Inr (resources, w')"
  obtains rs where "resolve_all F S (op_entries S) = Inr rs"
    and "resources = wrap (place (length (heap w)) rs [])"
    and "heap w' = heap w @ map fst rs"
    and "debug_log w' = debug_log w @ map building (map fst resources)"
proof (cases "resolve_all F S (op_entries S)")
  case (Inl e)
  with assms show ?thesis by (simp add: build_resources_eq)
next
  case (Inr rs)
  let ?t = "place (length (heap w)) rs []"
  from Inr assms have res: "resources = wrap ?t"
    and w': "w' = \<lparr>heap = heap w @ map fst rs,
                    debug_log = debug_log w @ map building (map fst ?t)\<rparr>"
    by (simp_all add: build_resources_eq)
  have "debug_log w' = debug_log w @ map building (map fst resources)"
    by (simp only: res w' map_fst_wrap world.simps)
  moreover have "heap w' = heap w @ map fst rs"
    by (simp add: w')
  ultimately show ?thesis
    using that [OF Inr res] by blast
qed

text \<open>
  The collected list mirrors the entries.
\<close>

lemma resolve_all_length:
  "resolve_all F S es = Inr rs \<Longrightarrow> length rs = length es"
proof (induction es arbitrary: rs)
  case Nil
  then show ?case by simp
next
  case (Cons x es)
  obtain p m sp where x: "x = (p, m, sp)" by (cases x)
  from Cons.prems obtain rs' where "resolve_all F S es = Inr rs'" "length rs = Suc (length rs')"
    by (auto simp: x split: sum.splits)
  with Cons.IH show ?case by simp
qed

lemma resolve_all_nth:
  "resolve_all F S es = Inr rs \<Longrightarrow> i < length es \<Longrightarrow> es ! i = (p, m, sp) \<Longrightarrow>
   F S p m sp = Inr (fst (rs ! i)) \<and> entry_tags S p sp = Inr (snd (rs ! i))"
proof (induction es arbitrary: rs i)
  case Nil
  then show ?case by simp
next
  case (Cons x es)
  obtain p' m' sp' where x: "x = (p', m', sp')" by (cases x)
  from Cons.prems(1) obtain opn tags rs' where
    h: "F S p' m' sp' = Inr opn" "entry_tags S p' sp' = Inr tags"
       "resolve_all F S es = Inr rs'" "rs = (opn, tags) # rs'"
    by (auto simp: x split: sum.splits)
  show ?case
  proof (cases i)
    case 0
    with Cons.prems h x show ?thesis by simp
  next
    case (Suc i')
    with Cons.prems have "i' < length es" "es ! i' = (p, m, sp)" by simp_all
    from Cons.IH [OF h(3) this] show ?thesis by (simp add: h Suc)
  qed
qed

lemma resolve_all_ok:
  "(\<exists>rs. resolve_all F S es = Inr rs) \<longleftrightarrow> list_all (entry_ok F S) es"
proof (induction es)
  case Nil
  show ?case by simp
next
  case (Cons x es)
  obtain p m sp where x: "x = (p, m, sp)" by (cases x)
  show ?case
    using Cons.IH by (auto simp: x entry_ok_def split: sum.splits)
qed

lemma resolve_all_cong:
  assumes "\<forall>e\<in>set es. case e of (p, m, sp) \<Rightarrow> F' S p m sp = F S p m sp"
  shows "resolve_all F' S es = resolve_all F S es"
  using assms
proof (induction es)
  case Nil
  show ?case by simp
next
  case (Cons x es)
  obtain p m sp where x: "x = (p, m, sp)" by (cases x)
  from Cons show ?case by (simp add: x split: sum.splits)
qed

lemma op_entries_not_parameters:
  "(p, m, sp) \<in> set (op_entries S) \<Longrightarrow> m \<noteq> ''parameters''"
  by (auto simp: op_entries_def method_entries_def)

lemma length_op_entries:
  "length (op_entries S) =
   sum_list (map (\<lambda>pe. length (filter (\<lambda>me. fst me \<noteq> ''parameters'')
                                 (resolve_iteritems S (snd pe))))
              (resolve_iteritems S (resolve S (spec_dict S) ''paths'' (JDict []))))"
  by (simp add: op_entries_def method_entries_def length_concat comp_def split_def)

lemma entry_tags_nonempty: "entry_tags S p sp = Inr tags \<Longrightarrow> tags \<noteq> []"
  by (auto simp: entry_tags_def Let_def split: if_splits sum.splits)

lemma entry_tags_untagged:
  assumes "resolve_list S (resolve S sp ''tags'' (JList [])) = []"
  shows "entry_tags S p sp =
    (if segments p = [] then Inl (SwaggerMappingError (err_msg p)) else Inr [hd (segments p)])"
  using assms
  by (simp add: entry_tags_def segments_Nil_convert convert_path_to_resource_segments)

text \<open>
  What a slot holds after the pass: the reference written by the last entry that takes it.
\<close>

lemma slot_empty: "slot [] tag oid = None"
  by (simp add: slot_def)

lemma slot_setitem_default:
  "slot (setitem_default tag oid v t) tag' oid' =
   (if tag' = tag \<and> oid' = oid then Some v else slot t tag' oid')"
  by (auto simp: slot_def setitem_default_def update_conv' split: option.splits)

lemma slot_tags_loop:
  "slot (tags_loop tags oid v t) tag' oid' =
   (if tag' \<in> set tags \<and> oid' = oid then Some v else slot t tag' oid')"
  by (induction tags arbitrary: t) (auto simp: slot_setitem_default)

lemma place_snoc:
  "place n (rs @ [(opn, tags)]) t =
   tags_loop tags (operation_id opn) (PyOperation (n + length rs)) (place n rs t)"
  by (induction n rs t rule: place.induct) simp_all

lemma hit_append_old: "k < length rs \<Longrightarrow> hit (rs @ [x]) tag oid k = hit rs tag oid k"
  by (simp add: hit_def nth_append)

lemma hit_append_new:
  "hit (rs @ [x]) tag oid (length rs) \<longleftrightarrow> tag \<in> set (snd x) \<and> operation_id (fst x) = oid"
  by (simp add: hit_def)

lemma slot_place:
  "slot (place n rs t) tag oid = Some v \<longleftrightarrow>
     (\<exists>j<length rs. v = PyOperation (n + j) \<and> hit rs tag oid j
        \<and> (\<forall>k. j < k \<and> k < length rs \<longrightarrow> \<not> hit rs tag oid k))
   \<or> (slot t tag oid = Some v \<and> (\<forall>k<length rs. \<not> hit rs tag oid k))"
proof (induction rs rule: rev_induct)
  case Nil
  show ?case by simp
next
  case (snoc x rs)
  obtain opn tags where x: "x = (opn, tags)" by (cases x)
  let ?new = "tag \<in> set tags \<and> operation_id opn = oid"
  have new: "hit (rs @ [x]) tag oid (length rs) \<longleftrightarrow> ?new"
    by (simp add: hit_append_new x)
  show ?case
  proof (cases ?new)
    case True
    have lhs: "slot (place n (rs @ [x]) t) tag oid = Some (PyOperation (n + length rs))"
      using True by (simp add: x place_snoc slot_tags_loop)
    have "(\<exists>j<length (rs @ [x]). v = PyOperation (n + j) \<and> hit (rs @ [x]) tag oid j
        \<and> (\<forall>k. j < k \<and> k < length (rs @ [x]) \<longrightarrow> \<not> hit (rs @ [x]) tag oid k))
        \<longleftrightarrow> v = PyOperation (n + length rs)"
    proof
      assume "\<exists>j<length (rs @ [x]). v = PyOperation (n + j) \<and> hit (rs @ [x]) tag oid j
        \<and> (\<forall>k. j < k \<and> k < length (rs @ [x]) \<longrightarrow> \<not> hit (rs @ [x]) tag oid k)"
      then obtain j where j: "j < length (rs @ [x])" "v = PyOperation (n + j)"
        and last: "\<forall>k. j < k \<and> k < length (rs @ [x]) \<longrightarrow> \<not> hit (rs @ [x]) tag oid k"
        by blast
      have "j = length rs"
      proof (rule ccontr)
        assume "j \<noteq> length rs"
        with j have "j < length rs" by simp
        with last have "\<not> hit (rs @ [x]) tag oid (length rs)" by simp
        with new True show False by simp
      qed
      with j show "v = PyOperation (n + length rs)" by simp
    next
      assume "v = PyOperation (n + length rs)"
      with new True show "\<exists>j<length (rs @ [x]). v = PyOperation (n + j) \<and> hit (rs @ [x]) tag oid j
        \<and> (\<forall>k. j < k \<and> k < length (rs @ [x]) \<longrightarrow> \<not> hit (rs @ [x]) tag oid k)"
        by (intro exI [of _ "length rs"]) auto
    qed
    moreover have "\<not> (\<forall>k<length (rs @ [x]). \<not> hit (rs @ [x]) tag oid k)"
      using new True by (auto intro: exI [of _ "length rs"])
    ultimately show ?thesis using lhs by auto
  next
    case False
    have lhs: "slot (place n (rs @ [x]) t) tag oid = slot (place n rs t) tag oid"
      using False by (auto simp: x place_snoc slot_tags_loop)
    have nohit: "\<not> hit (rs @ [x]) tag oid (length rs)" using new False by simp
    have all: "(\<forall>k<length (rs @ [x]). \<not> hit (rs @ [x]) tag oid k)
        \<longleftrightarrow> (\<forall>k<length rs. \<not> hit rs tag oid k)"
      using nohit by (auto simp: less_Suc_eq hit_append_old)
    have later: "(\<forall>k. j < k \<and> k < length (rs @ [x]) \<longrightarrow> \<not> hit (rs @ [x]) tag oid k)
        \<longleftrightarrow> (\<forall>k. j < k \<and> k < length rs \<longrightarrow> \<not> hit rs tag oid k)" for j
      using nohit by (auto simp: less_Suc_eq hit_append_old)
    have ex: "(\<exists>j<length (rs @ [x]). v = PyOperation (n + j) \<and> hit (rs @ [x]) tag oid j
        \<and> (\<forall>k. j < k \<and> k < length (rs @ [x]) \<longrightarrow> \<not> hit (rs @ [x]) tag oid k))
        \<longleftrightarrow> (\<exists>j<length rs. v = PyOperation (n + j) \<and> hit rs tag oid j
        \<and> (\<forall>k. j < k \<and> k < length rs \<longrightarrow> \<not> hit rs tag oid k))"
      unfolding later using nohit by (auto simp: less_Suc_eq hit_append_old)
    show ?thesis unfolding lhs snoc.IH all ex ..
  qed
qed

lemma ex_last_hit:
  assumes "j < length rs" and "hit rs tag oid j"
  shows "\<exists>k. j \<le> k \<and> k < length rs \<and> hit rs tag oid k
            \<and> (\<forall>l. k < l \<and> l < length rs \<longrightarrow> \<not> hit rs tag oid l)"
proof -
  let ?P = "\<lambda>k. j \<le> k \<and> k < length rs \<and> hit rs tag oid k"
  have "?P j" using assms by simp
  moreover have "\<forall>y. ?P y \<longrightarrow> y \<le> length rs" by simp
  ultimately obtain k where k: "?P k" and mx: "\<forall>y. ?P y \<longrightarrow> y \<le> k"
    using Nat.ex_has_greatest_nat [of ?P j "length rs"] by blast
  have "\<not> hit rs tag oid l" if "k < l \<and> l < length rs" for l
  proof
    assume "hit rs tag oid l"
    with that k have "?P l" by simp
    with mx have "l \<le> k" by blast
    with that show False by simp
  qed
  with k show ?thesis by blast
qed

lemma takes_slot_simp:
  "F S p m sp = Inr opn \<Longrightarrow> entry_tags S p sp = Inr tags \<Longrightarrow>
   takes_slot F S tag oid (p, m, sp) \<longleftrightarrow> operation_id opn = oid \<and> tag \<in> set tags"
  by (simp add: takes_slot_def)

lemma takes_slot_hit:
  assumes "resolve_all F S es = Inr rs" and "k < length es"
  shows "takes_slot F S tag oid (es ! k) \<longleftrightarrow> hit rs tag oid k"
proof -
  obtain p m sp where e: "es ! k = (p, m, sp)" by (cases "es ! k")
  from resolve_all_nth [OF assms e]
  show ?thesis by (auto simp: takes_slot_def hit_def e)
qed

lemma list_ex_drop:
  "list_ex P (drop (Suc i) xs) \<longleftrightarrow> (\<exists>k. i < k \<and> k < length xs \<and> P (xs ! k))"
proof
  assume "list_ex P (drop (Suc i) xs)"
  then obtain m where m: "m < length (drop (Suc i) xs)" "P (drop (Suc i) xs ! m)"
    by (auto simp: list_ex_iff in_set_conv_nth)
  then have "i < Suc i + m \<and> Suc i + m < length xs \<and> P (xs ! (Suc i + m))"
    by (simp add: less_diff_conv add.commute)
  then show "\<exists>k. i < k \<and> k < length xs \<and> P (xs ! k)" by blast
next
  assume "\<exists>k. i < k \<and> k < length xs \<and> P (xs ! k)"
  then obtain k where k: "i < k" "k < length xs" "P (xs ! k)" by blast
  then have "k - Suc i < length (drop (Suc i) xs)" "drop (Suc i) xs ! (k - Suc i) = xs ! k"
    by simp_all
  with k(3) show "list_ex P (drop (Suc i) xs)"
    by (metis list_ex_iff nth_mem)
qed

lemma overwritten_hit:
  assumes "resolve_all F S (op_entries S) = Inr rs"
  shows "overwritten F S i tag oid \<longleftrightarrow> (\<exists>k. i < k \<and> k < length rs \<and> hit rs tag oid k)"
proof -
  have len: "length rs = length (op_entries S)"
    using assms by (rule resolve_all_length)
  show ?thesis
    unfolding overwritten_def list_ex_drop len
    using takes_slot_hit [OF assms] by blast
qed

lemma build_resources_slot:
  assumes "build_resources F S w = Inr (resources, w')"
  shows "(\<exists>r. map_of resources tag = Some r \<and> map_of (operations r) oid = Some v) \<longleftrightarrow>
         (\<exists>j<length (op_entries S). v = PyOperation (length (heap w) + j)
            \<and> takes_slot F S tag oid (op_entries S ! j) \<and> \<not> overwritten F S j tag oid)"
proof -
  from assms obtain rs where rs: "resolve_all F S (op_entries S) = Inr rs"
    and res: "resources = wrap (place (length (heap w)) rs [])"
    by (rule build_resources_Inr)
  have len: "length rs = length (op_entries S)"
    using rs by (rule resolve_all_length)
  have "(\<exists>r. map_of resources tag = Some r \<and> map_of (operations r) oid = Some v)
      \<longleftrightarrow> slot (place (length (heap w)) rs []) tag oid = Some v"
    unfolding res by (rule wrap_slot)
  also have "\<dots> \<longleftrightarrow> (\<exists>j<length rs. v = PyOperation (length (heap w) + j) \<and> hit rs tag oid j
        \<and> (\<forall>k. j < k \<and> k < length rs \<longrightarrow> \<not> hit rs tag oid k))"
    using slot_empty by (simp add: slot_place)
  also have "\<dots> \<longleftrightarrow> (\<exists>j<length (op_entries S). v = PyOperation (length (heap w) + j)
            \<and> takes_slot F S tag oid (op_entries S ! j) \<and> \<not> overwritten F S j tag oid)"
    unfolding overwritten_hit [OF rs] len [symmetric]
    using takes_slot_hit [OF rs] len by auto
  finally show ?thesis .
qed

lemma build_resources_ref:
  assumes "build_resources F S w = Inr (resources, w')"
    and "i < length (op_entries S)"
  shows "(\<exists>r. map_of resources tag = Some r
              \<and> map_of (operations r) oid = Some (PyOperation (length (heap w) + i)))
         \<longleftrightarrow> takes_slot F S tag oid (op_entries S ! i) \<and> \<not> overwritten F S i tag oid"
  unfolding build_resources_slot [OF assms(1)] using assms(2) by auto

text \<open>
  The keys of the buckets do not depend on the addresses that are stored, and no bucket
  is empty.
\<close>

lemma map_of_kv: "map_of (kv t) tag = map_option (map fst) (map_of t tag)"
  by (induction t) (auto simp: kv_def)

lemma kv_update: "kv (AList.update tag b t) = AList.update tag (map fst b) (kv t)"
  by (induction t) (auto simp: kv_def)

lemma kv_setitem_default:
  "kv (setitem_default tag oid v t) =
   AList.update tag
     (let ks = (case map_of (kv t) tag of None \<Rightarrow> [] | Some ks \<Rightarrow> ks)
      in if oid \<in> set ks then ks else ks @ [oid])
     (kv t)"
  by (simp add: setitem_default_def kv_update update_keys map_of_kv Let_def
        split: option.splits)

lemma kv_setitem_default_cong:
  "kv t = kv t' \<Longrightarrow> kv (setitem_default tag oid v t) = kv (setitem_default tag oid v' t')"
  by (simp only: kv_setitem_default)

lemma kv_tags_loop_cong:
  "kv t = kv t' \<Longrightarrow> kv (tags_loop tags oid v t) = kv (tags_loop tags oid v' t')"
proof (induction tags arbitrary: t t')
  case Nil
  then show ?case by simp
next
  case (Cons tag tags)
  from Cons.prems have "kv (setitem_default tag oid v t) = kv (setitem_default tag oid v' t')"
    by (rule kv_setitem_default_cong)
  then show ?case by (simp add: Cons.IH)
qed

lemma kv_place_cong:
  "kv t = kv t' \<Longrightarrow> kv (place n rs t) = kv (place n' rs t')"
proof (induction rs arbitrary: n n' t t')
  case Nil
  then show ?case by simp
next
  case (Cons x rs)
  obtain opn tags where x: "x = (opn, tags)" by (cases x)
  from Cons.prems
  have "kv (tags_loop tags (operation_id opn) (PyOperation n) t)
      = kv (tags_loop tags (operation_id opn) (PyOperation n') t')"
    by (rule kv_tags_loop_cong)
  then show ?case by (simp add: x Cons.IH)
qed

lemma key_view_wrap: "key_view (wrap t) = kv t"
  by (induction t) (auto simp: key_view_def wrap_def kv_def)

lemma set_update_subset: "set (AList.update k v al) \<subseteq> insert (k, v) (set al)"
  by (induction al) auto

lemma buckets_filled_setitem_default:
  assumes "buckets_filled t"
  shows "buckets_filled (setitem_default tag oid v t)"
proof -
  have "snd kb \<noteq> []" if "kb \<in> set (setitem_default tag oid v t)" for kb
  proof -
    from that set_update_subset
    have "kb = (tag, AList.update oid v (case map_of t tag of None \<Rightarrow> [] | Some b \<Rightarrow> b))
        \<or> kb \<in> set t"
      unfolding setitem_default_def by fastforce
    with assms show ?thesis by (auto simp: buckets_filled_def list_all_iff)
  qed
  then show ?thesis by (simp add: buckets_filled_def list_all_iff)
qed

lemma buckets_filled_tags_loop:
  "buckets_filled t \<Longrightarrow> buckets_filled (tags_loop tags oid v t)"
  by (induction tags arbitrary: t) (simp_all add: buckets_filled_setitem_default)

lemma buckets_filled_place:
  "buckets_filled t \<Longrightarrow> buckets_filled (place n rs t)"
  by (induction n rs t rule: place.induct) (simp_all add: buckets_filled_tags_loop)

text \<open>
  The runs on the example documents.
\<close>

lemma petstore_entries:
  "op_entries (plain_spec petstore) =
     [(''/pet/findByStatus'', ''get'', JDict [(''operationId'', JStr ''findPetsByStatus'')]),
      (''/store/inventory'', ''get'',
         JDict [(''operationId'', JStr ''getInventory''), (''tags'', JList [JStr ''store''])]),
      (''/pet/{petId}'', ''get'',
         JDict [(''operationId'', JStr ''x''), (''tags'', JList [JStr ''pet'', JStr ''store''])])]"
  by (simp add: op_entries_def method_entries_def plain_spec_def petstore_def
        plain_resolve_def plain_iteritems_def)

lemma petstore_build:
  "build_resources plain_from_spec (plain_spec petstore) world0
     = Inr (petstore_resources, petstore_world)"
  by (simp add: build_resources_def plain_spec_def petstore_def world0_def plain_resolve_def
      plain_iteritems_def plain_list_def plain_from_spec_def entry_tags_def
      convert_path_to_resource_def lstrip_def
      setitem_default_def Resource_init_def petstore_resources_def petstore_world_def
      building_def)

lemma petstore_rebuild:
  "build_resources plain_from_spec (plain_spec petstore) petstore_world
     = Inr ([(''pet'', \<lparr>name = ''pet'',
                operations = [(''findPetsByStatus'', PyOperation 3), (''x'', PyOperation 5)]\<rparr>),
      (''store'', \<lparr>name = ''store'',
                  operations = [(''getInventory'', PyOperation 4), (''x'', PyOperation 5)]\<rparr>)],
       \<lparr>heap = heap petstore_world @ heap petstore_world,
        debug_log = debug_log petstore_world @ debug_log petstore_world\<rparr>)"
  by (simp add: build_resources_def plain_spec_def petstore_def plain_resolve_def
      plain_iteritems_def plain_list_def plain_from_spec_def entry_tags_def
      convert_path_to_resource_def lstrip_def
      setitem_default_def Resource_init_def petstore_world_def
      building_def)

lemma dup_entries:
  "op_entries (plain_spec dup_doc) =
     [(''/pet'', ''get'', JDict [(''operationId'', JStr ''dup''), (''tags'', JList [JStr ''pet''])]),
      (''/pet'', ''post'', JDict [(''operationId'', JStr ''dup''), (''tags'', JList [JStr ''pet''])])]"
  by (simp add: op_entries_def method_entries_def plain_spec_def dup_doc_def
        plain_resolve_def plain_iteritems_def)

section \<open>Claims about the resolver\<close>

text \<open>
  Claim C2. For every path with at least one non-empty segment,
  \<open>convert_path_to_resource\<close> returns the first such segment exactly. For the root path
  \<^verbatim>\<open>/\<close> and for the empty string it raises \<^verbatim>\<open>SwaggerMappingError\<close> with a message that
  carries the offending path. It raises exactly when the first token is empty, the error is
  then always that one (never \<^verbatim>\<open>IndexError\<close>), and the first token is empty exactly when
  the path has no non-empty segment.
\<close>

theorem convert_path_to_resource_first_segment:
  "(segments p \<noteq> [] \<longrightarrow> convert_path_to_resource p = Inr (hd (segments p)))
   \<and> convert_path_to_resource ''/''
       = Inl (SwaggerMappingError ''Could not extract resource name from path /'')
   \<and> convert_path_to_resource ''''
       = Inl (SwaggerMappingError ''Could not extract resource name from path '')
   \<and> (convert_path_to_resource p = Inl e \<longleftrightarrow>
        e = SwaggerMappingError (err_msg p)
        \<and> hd (str_split (CHR ''/'') (lstrip ''/'' p)) = [])
   \<and> (hd (str_split (CHR ''/'') (lstrip ''/'' p)) = [] \<longleftrightarrow> segments p = [])"
proof -
  have a: "segments p \<noteq> [] \<longrightarrow> convert_path_to_resource p = Inr (hd (segments p))"
    by (simp add: convert_path_to_resource_segments)
  have b: "convert_path_to_resource ''/''
       = Inl (SwaggerMappingError ''Could not extract resource name from path /'')"
    by (simp add: convert_path_to_resource_def lstrip_def err_msg_def)
  have c: "convert_path_to_resource ''''
       = Inl (SwaggerMappingError ''Could not extract resource name from path '')"
    by (simp add: convert_path_to_resource_def lstrip_def err_msg_def)
  have tok: "hd (str_split (CHR ''/'') (lstrip ''/'' p))
      = takeWhile (\<lambda>c. c \<noteq> CHR ''/'') (dropWhile (\<lambda>c. c = CHR ''/'') p)"
    by (simp add: hd_str_split lstrip_def)
  have d: "convert_path_to_resource p = Inl e \<longleftrightarrow>
        e = SwaggerMappingError (err_msg p)
        \<and> hd (str_split (CHR ''/'') (lstrip ''/'' p)) = []"
    unfolding tok by (auto simp: convert_path_to_resource_takeWhile Let_def)
  have e: "hd (str_split (CHR ''/'') (lstrip ''/'' p)) = [] \<longleftrightarrow> segments p = []"
  proof
    assume "hd (str_split (CHR ''/'') (lstrip ''/'' p)) = []"
    then have "\<exists>e. convert_path_to_resource p = Inl e"
      unfolding tok by (simp add: convert_path_to_resource_takeWhile)
    then show "segments p = []" using a by auto
  next
    assume s: "segments p = []"
    have "set p \<subseteq> {CHR ''/''}"
    proof (rule ccontr)
      assume "\<not> set p \<subseteq> {CHR ''/''}"
      then have "takeWhile (\<lambda>c. c \<noteq> CHR ''/'') (dropWhile (\<lambda>c. c = CHR ''/'') p) \<noteq> []"
        by (simp add: first_token_empty_iff)
      then have ne: "hd (str_split (CHR ''/'') (lstrip ''/'' p)) \<noteq> []"
        by (simp only: tok not_False_eq_True)
      have "hd (str_split (CHR ''/'') (lstrip ''/'' p)) \<in> set (str_split (CHR ''/'') (lstrip ''/'' p))"
        using str_split_not_Nil by simp
      with ne have "segments (lstrip ''/'' p) \<noteq> []"
        by (auto simp: segments_def filter_empty_conv)
      with s show False by (simp add: segments_lstrip)
    qed
    then show "hd (str_split (CHR ''/'') (lstrip ''/'' p)) = []"
      unfolding tok by (simp add: first_token_empty_iff)
  qed
  from a b c d e show ?thesis by blast
qed

text \<open>
  The theorem at the documented examples and at a path made of slashes only.
\<close>

theorem convert_path_to_resource_first_segment_witness:
  "segments ''/pet/findByStatus'' \<noteq> []
   \<and> hd (segments ''/pet/findByStatus'') = ''pet''
   \<and> convert_path_to_resource ''/pet/findByStatus'' = Inr ''pet''
   \<and> convert_path_to_resource ''/pet/{petId}'' = Inr ''pet''
   \<and> convert_path_to_resource ''/pet'' = Inr ''pet''
   \<and> (\<exists>e. convert_path_to_resource ''///'' = Inl e)
   \<and> segments ''///'' = []"
proof -
  have s1: "segments ''/pet/findByStatus'' = [''pet'', ''findByStatus'']"
    by (simp add: segments_def)
  have s2: "segments ''/pet/{petId}'' = [''pet'', ''{petId}'']"
    by (simp add: segments_def)
  have s3: "segments ''/pet'' = [''pet'']"
    by (simp add: segments_def)
  have s4: "segments ''///'' = []"
    by (simp add: segments_def)
  show ?thesis
    using convert_path_to_resource_first_segment [of "''/pet/findByStatus''"]
      convert_path_to_resource_first_segment [of "''/pet/{petId}''"] convert_path_to_resource_first_segment [of "''/pet''"]
      convert_path_to_resource_first_segment [of "''///''" "SwaggerMappingError (err_msg ''///'')"]
    by (simp add: s1 s2 s3 s4 lstrip_def)
qed

text \<open>
  Claim C3, as stated, fails: \<^verbatim>\<open>lstrip('/')\<close> removes every leading slash, not a single
  one, so the input \<^verbatim>\<open>//pet\<close> does not raise; it yields \<^verbatim>\<open>pet\<close>.
\<close>

theorem convert_path_to_resource_double_slash: "convert_path_to_resource ''//pet'' = Inr ''pet''"
  by (simp add: convert_path_to_resource_def lstrip_def)

text \<open>
  Claim C3, amended. \<open>convert_path_to_resource\<close> strips every leading slash, splits the
  remainder on the slash and takes the first token: its result is the longest slash-free
  prefix of what follows the leading slashes, and the error when that prefix is empty. On
  every input that does not begin with two slashes this agrees with the algorithm that
  strips a single leading slash, and the function raises exactly when the input consists
  of slashes only.
\<close>

theorem convert_path_to_resource_strips_every_slash:
  "convert_path_to_resource p =
     (let t = takeWhile (\<lambda>c. c \<noteq> CHR ''/'') (dropWhile (\<lambda>c. c = CHR ''/'') p) in
      if t = [] then Inl (SwaggerMappingError (err_msg p)) else Inr t)
   \<and> (take 2 p \<noteq> ''//'' \<longrightarrow> convert_path_to_resource p = single_strip_resolver p)
   \<and> ((\<exists>e. convert_path_to_resource p = Inl e) \<longleftrightarrow> set p \<subseteq> {CHR ''/''})"
proof -
  have a: "convert_path_to_resource p =
     (let t = takeWhile (\<lambda>c. c \<noteq> CHR ''/'') (dropWhile (\<lambda>c. c = CHR ''/'') p) in
      if t = [] then Inl (SwaggerMappingError (err_msg p)) else Inr t)"
    by (rule convert_path_to_resource_takeWhile)
  have b: "convert_path_to_resource p = single_strip_resolver p" if "take 2 p \<noteq> ''//''"
  proof -
    have "lstrip ''/'' p = strip_one_slash p"
    proof (cases p)
      case Nil
      then show ?thesis by (simp add: lstrip_def strip_one_slash_def)
    next
      case (Cons c cs)
      show ?thesis
      proof (cases "c = CHR ''/''")
        case False
        with Cons show ?thesis by (simp add: lstrip_def strip_one_slash_def)
      next
        case True
        with Cons that have "cs = [] \<or> hd cs \<noteq> CHR ''/''"
          by (cases cs) auto
        then have "dropWhile (\<lambda>c. c = CHR ''/'') cs = cs"
          by (cases cs) auto
        with Cons True show ?thesis by (simp add: lstrip_def strip_one_slash_def)
      qed
    qed
    then show ?thesis
      by (simp add: convert_path_to_resource_def single_strip_resolver_def)
  qed
  have c: "(\<exists>e. convert_path_to_resource p = Inl e) \<longleftrightarrow> set p \<subseteq> {CHR ''/''}"
    unfolding a using first_token_empty_iff [of p] by (auto simp: Let_def)
  from a b c show ?thesis by blast
qed

text \<open>
  The theorem at \<^verbatim>\<open>/pet/findByStatus\<close>, which does not begin with two slashes.
\<close>

theorem convert_path_to_resource_strips_every_slash_witness:
  "take 2 ''/pet/findByStatus'' \<noteq> ''//''
   \<and> convert_path_to_resource ''/pet/findByStatus'' = Inr ''pet''
   \<and> single_strip_resolver ''/pet/findByStatus'' = Inr ''pet''"
  using convert_path_to_resource_strips_every_slash [of "''/pet/findByStatus''"]
  by (simp add: single_strip_resolver_def strip_one_slash_def)

section \<open>Facts about the resource container\<close>

text \<open>
  The hook \<^verbatim>\<open>__getattr__\<close> by itself: it raises exactly when the value it reads is false,
  and on a mapping that holds Operations exactly when the key is missing.
\<close>

lemma getattr_hook_truth:
  "(\<exists>e. Resource_getattr r item = Inl e) \<longleftrightarrow> \<not> py_bool (dict_get (operations r) item)"
  by (auto simp: Resource_getattr_def dict_get_def Let_def)

lemma getattr_hook_falsy:
  "map_of (operations r) item = Some v \<Longrightarrow> \<not> py_bool v \<Longrightarrow>
   Resource_getattr r item =
     Inl (AttributeError
           (''Resource '' @ quoted (name r) @ '' has no operation '' @ quoted item))"
  by (simp add: Resource_getattr_def dict_get_def)

lemma getattr_hook_missing:
  "map_of (operations r) item = None \<Longrightarrow>
   Resource_getattr r item =
     Inl (AttributeError
           (''Resource '' @ quoted (name r) @ '' has no operation '' @ quoted item))"
  by (simp add: Resource_getattr_def dict_get_def)

lemma getattr_hook_typed:
  assumes "list_all (\<lambda>kv. is_Operation (snd kv)) (operations r)"
    and "map_of (operations r) item = Some v"
  shows "Resource_getattr r item = Inr v"
proof -
  from assms(2) have "(item, v) \<in> set (operations r)" by (rule map_of_SomeD)
  with assms(1) have "is_Operation v" by (auto simp: list_all_iff)
  then have "py_bool v" by (cases v) simp_all
  with assms(2) show ?thesis by (simp add: Resource_getattr_def dict_get_def)
qed

lemma Resource_attr_miss:
  "ordinary_lookup base r item = None \<Longrightarrow> Resource_attr base r item = Resource_getattr r item"
  by (simp add: Resource_attr_def)

lemma Resource_attr_found:
  "ordinary_lookup base r item = Some v \<Longrightarrow> Resource_attr base r item = Inr v"
  by (simp add: Resource_attr_def)

lemma ordinary_lookup_name:
  "ordinary_lookup base r ''name'' = Some (PyStr (name r))"
  by (simp add: ordinary_lookup_def instance_attrs_def)

lemma ordinary_lookup_anything:
  "ordinary_lookup object_attrs r ''anything'' = None"
  by (simp add: ordinary_lookup_def instance_attrs_def class_body_def object_attrs_def)

section \<open>Claims about the resource container\<close>

text \<open>
  Claim C7, as stated, fails for a name that ordinary attribute lookup finds, since
  \<^verbatim>\<open>__getattr__\<close> is not called then. \<^verbatim>\<open>Resource("pet", {}).name\<close> is the string
  \<^verbatim>\<open>pet\<close> and does not raise although no operation is registered under \<^verbatim>\<open>name\<close>, and
  with an Operation registered under \<^verbatim>\<open>name\<close> the lookup still returns the string and
  not the Operation.
\<close>

theorem Resource_attr_shadowed_name:
  "Resource_attr object_attrs \<lparr>name = ''pet'', operations = []\<rparr> ''name'' = Inr (PyStr ''pet'')
   \<and> Resource_attr object_attrs \<lparr>name = ''pet'', operations = [(''name'', PyOperation 0)]\<rparr>
        ''name'' = Inr (PyStr ''pet'')"
  by (simp add: Resource_attr_def ordinary_lookup_def instance_attrs_def)

text \<open>
  Claim C7, amended. Let every value of the operations mapping of a Resource be an
  Operation, as the class documents its argument. For every name that ordinary attribute
  lookup does not find, attribute-style lookup returns the Operation registered under
  exactly that name, and it raises if and only if no operation is registered under that
  name; the error is an \<^verbatim>\<open>AttributeError\<close> whose message contains the resource name and
  the requested name, each between single quotes. For a name that ordinary lookup finds
  (\<^verbatim>\<open>name\<close>, \<^verbatim>\<open>operations\<close>, a method of the class, an attribute of \<^verbatim>\<open>object\<close>) the
  result is that attribute, whatever the operations mapping holds.
\<close>

theorem Resource_attr_registered:
  assumes "list_all (\<lambda>kv. is_Operation (snd kv)) (operations r)"
  shows "(ordinary_lookup base r item = None \<longrightarrow>
            (\<forall>v. map_of (operations r) item = Some v \<longrightarrow> Resource_attr base r item = Inr v)
          \<and> ((\<exists>e. Resource_attr base r item = Inl e) \<longleftrightarrow> map_of (operations r) item = None)
          \<and> (map_of (operations r) item = None \<longrightarrow>
                Resource_attr base r item =
                  Inl (AttributeError
                        (''Resource '' @ quoted (name r) @ '' has no operation ''
                           @ quoted item))))
       \<and> (\<forall>v. ordinary_lookup base r item = Some v \<longrightarrow> Resource_attr base r item = Inr v)"
proof -
  have found: "\<forall>v. ordinary_lookup base r item = Some v \<longrightarrow> Resource_attr base r item = Inr v"
    by (simp add: Resource_attr_found)
  have missed: "(\<forall>v. map_of (operations r) item = Some v \<longrightarrow> Resource_attr base r item = Inr v)
          \<and> ((\<exists>e. Resource_attr base r item = Inl e) \<longleftrightarrow> map_of (operations r) item = None)
          \<and> (map_of (operations r) item = None \<longrightarrow>
                Resource_attr base r item =
                  Inl (AttributeError
                        (''Resource '' @ quoted (name r) @ '' has no operation ''
                           @ quoted item)))"
    if miss: "ordinary_lookup base r item = None"
  proof (cases "map_of (operations r) item")
    case None
    then show ?thesis
      by (simp add: Resource_attr_miss [OF miss] getattr_hook_missing)
  next
    case (Some v)
    then show ?thesis
      by (simp add: Resource_attr_miss [OF miss] getattr_hook_typed [OF assms Some])
  qed
  from found missed show ?thesis by blast
qed

text \<open>
  The theorem at \<^verbatim>\<open>Resource("pet", {}).anything\<close> and at a Resource that holds one
  Operation, looked up under its name.
\<close>

theorem Resource_attr_registered_witness:
  "ordinary_lookup object_attrs \<lparr>name = ''pet'', operations = []\<rparr> ''anything'' = None
   \<and> Resource_attr object_attrs \<lparr>name = ''pet'', operations = []\<rparr> ''anything''
     = Inl (AttributeError
             (''Resource '' @ [CHR 0x27] @ ''pet'' @ [CHR 0x27] @ '' has no operation ''
                @ [CHR 0x27] @ ''anything'' @ [CHR 0x27]))
   \<and> list_all (\<lambda>kv. is_Operation (snd kv)) [(''anything'', PyOperation 0)]
   \<and> Resource_attr object_attrs \<lparr>name = ''pet'', operations = [(''anything'', PyOperation 0)]\<rparr>
        ''anything'' = Inr (PyOperation 0)"
proof -
  let ?r0 = "\<lparr>name = ''pet'', operations = []\<rparr>"
  let ?r1 = "\<lparr>name = ''pet'', operations = [(''anything'', PyOperation 0)]\<rparr>"
  have t0: "list_all (\<lambda>kv. is_Operation (snd kv)) (operations ?r0)" by simp
  have t1: "list_all (\<lambda>kv. is_Operation (snd kv)) (operations ?r1)" by simp
  from Resource_attr_registered [OF t0, of object_attrs "''anything''"]
  have a: "Resource_attr object_attrs ?r0 ''anything''
     = Inl (AttributeError
             (''Resource '' @ [CHR 0x27] @ ''pet'' @ [CHR 0x27] @ '' has no operation ''
                @ [CHR 0x27] @ ''anything'' @ [CHR 0x27]))"
    by (simp add: ordinary_lookup_anything quoted_def)
  from Resource_attr_registered [OF t1, of object_attrs "''anything''"]
  have b: "Resource_attr object_attrs ?r1 ''anything'' = Inr (PyOperation 0)"
    by (simp add: ordinary_lookup_anything)
  from a b t1 ordinary_lookup_anything [of ?r0] show ?thesis by simp
qed

text \<open>
  Claim C10, as stated, fails for a name that ordinary attribute lookup finds: with
  \<^verbatim>\<open>name\<close> bound to \<^verbatim>\<open>None\<close> in the operations mapping, \<^verbatim>\<open>resource.name\<close> is the string
  \<^verbatim>\<open>pet\<close> and nothing is raised.
\<close>

theorem Resource_attr_shadowed_falsy:
  "Resource_attr object_attrs \<lparr>name = ''pet'', operations = [(''name'', PyNone)]\<rparr> ''name''
     = Inr (PyStr ''pet'')"
  by (simp add: Resource_attr_def ordinary_lookup_def instance_attrs_def)

text \<open>
  Claim C10, amended. Attribute-style lookup raises exactly when ordinary attribute lookup
  does not find the name and the value that \<^verbatim>\<open>operations.get(item)\<close> returns is false.
  So for a name that ordinary lookup does not find, absence is decided by the truth value
  of the stored value, not by the presence of the key: a name bound to a false value (such
  as \<^verbatim>\<open>None\<close>) raises the same \<^verbatim>\<open>AttributeError\<close> as a missing name although the key is
  present.
\<close>

theorem Resource_attr_truthiness:
  "((\<exists>e. Resource_attr base r item = Inl e) \<longleftrightarrow>
      ordinary_lookup base r item = None \<and> \<not> py_bool (dict_get (operations r) item))
   \<and> (ordinary_lookup base r item = None \<and> map_of (operations r) item = Some v
        \<and> \<not> py_bool v \<longrightarrow>
        Resource_attr base r item =
          Inl (AttributeError
                (''Resource '' @ quoted (name r) @ '' has no operation '' @ quoted item)))"
proof -
  have a: "(\<exists>e. Resource_attr base r item = Inl e) \<longleftrightarrow>
      ordinary_lookup base r item = None \<and> \<not> py_bool (dict_get (operations r) item)"
  proof (cases "ordinary_lookup base r item")
    case None
    then show ?thesis by (simp add: Resource_attr_miss getattr_hook_truth)
  next
    case (Some u)
    then show ?thesis by (simp add: Resource_attr_found)
  qed
  have b: "Resource_attr base r item =
          Inl (AttributeError
                (''Resource '' @ quoted (name r) @ '' has no operation '' @ quoted item))"
    if "ordinary_lookup base r item = None \<and> map_of (operations r) item = Some v
        \<and> \<not> py_bool v"
    using that by (simp add: Resource_attr_miss getattr_hook_falsy)
  from a b show ?thesis by blast
qed

text \<open>
  The theorem at a Resource whose mapping binds \<^verbatim>\<open>anything\<close> to \<^verbatim>\<open>None\<close>.
\<close>

theorem Resource_attr_truthiness_witness:
  "ordinary_lookup object_attrs \<lparr>name = ''pet'', operations = [(''anything'', PyNone)]\<rparr>
     ''anything'' = None
   \<and> map_of (operations \<lparr>name = ''pet'', operations = [(''anything'', PyNone)]\<rparr>) ''anything''
       = Some PyNone
   \<and> \<not> py_bool PyNone
   \<and> Resource_attr object_attrs \<lparr>name = ''pet'', operations = [(''anything'', PyNone)]\<rparr>
        ''anything''
       = Inl (AttributeError
               (''Resource '' @ quoted ''pet'' @ '' has no operation '' @ quoted ''anything''))"
  using Resource_attr_truthiness
    [of object_attrs "\<lparr>name = ''pet'', operations = [(''anything'', PyNone)]\<rparr>"
        "''anything''" PyNone]
  by (simp add: ordinary_lookup_anything)

section \<open>Claims about the grouping pass\<close>

text \<open>
  Claim C1, as stated, fails in two ways. In \<open>dup_doc\<close> the Operation built first (address
  0, method \<^verbatim>\<open>get\<close>) is in no Resource at all: the later entry with the same tag and the
  same operation id replaced it. In \<open>twice_doc\<close> the entry declares two tags and its
  Operation is in one Resource, since both tags are \<^verbatim>\<open>pet\<close>.
\<close>

theorem build_resources_overwritten_operation:
  "build_resources plain_from_spec (plain_spec dup_doc) world0 =
     Inr ([(''pet'', \<lparr>name = ''pet'', operations = [(''dup'', PyOperation 1)]\<rparr>)],
          \<lparr>heap = [\<lparr>operation_id = ''dup'', op_path_name = ''/pet'', op_http_method = ''get''\<rparr>,
                   \<lparr>operation_id = ''dup'', op_path_name = ''/pet'', op_http_method = ''post''\<rparr>],
           debug_log = [building ''pet'']\<rparr>)
   \<and> build_resources plain_from_spec (plain_spec twice_doc) world0 =
     Inr ([(''pet'', \<lparr>name = ''pet'', operations = [(''x'', PyOperation 0)]\<rparr>)],
          \<lparr>heap = [\<lparr>operation_id = ''x'', op_path_name = ''/pet'', op_http_method = ''get''\<rparr>],
           debug_log = [building ''pet'']\<rparr>)"
  by (simp add: build_resources_def plain_spec_def dup_doc_def twice_doc_def world0_def
      plain_resolve_def plain_iteritems_def plain_list_def plain_from_spec_def entry_tags_def
      setitem_default_def Resource_init_def building_def)

text \<open>
  Claim C1, amended. Let a run of \<open>build_resources\<close> return, and take any operation entry
  it processed. \<^verbatim>\<open>from_spec\<close> returned an Operation for it, which sits at a fresh address
  of the store; its tag list is not empty. A Resource holds a reference to that very
  Operation under a key exactly when the Resource is named by a tag of the list, the key
  is the Operation's operation id, and no later entry overwrote that slot. So the
  Operation is in no Resource outside its tag list, all Resources that hold it share the
  one instance, and when the tags are pairwise distinct and none of the slots is
  overwritten it is in as many Resources as the list has tags.
\<close>

theorem build_resources_places_operation:
  assumes "build_resources F S w = Inr (resources, w')"
    and "i < length (op_entries S)"
    and "op_entries S ! i = (path_name, http_method, op_spec)"
  shows "\<exists>opn tags.
      F S path_name http_method op_spec = Inr opn
    \<and> entry_tags S path_name op_spec = Inr tags
    \<and> tags \<noteq> []
    \<and> length (heap w) + i < length (heap w')
    \<and> heap w' ! (length (heap w) + i) = opn
    \<and> (\<forall>tag oid.
          (\<exists>r. map_of resources tag = Some r
              \<and> map_of (operations r) oid = Some (PyOperation (length (heap w) + i)))
          \<longleftrightarrow> tag \<in> set tags \<and> oid = operation_id opn \<and> \<not> overwritten F S i tag oid)
    \<and> (distinct tags \<and> (\<forall>tag\<in>set tags. \<not> overwritten F S i tag (operation_id opn)) \<longrightarrow>
          card {tag. \<exists>r. map_of resources tag = Some r
                  \<and> map_of (operations r) (operation_id opn)
                      = Some (PyOperation (length (heap w) + i))}
            = length tags)"
proof -
  from assms(1) obtain rs where rs: "resolve_all F S (op_entries S) = Inr rs"
    and hp: "heap w' = heap w @ map fst rs"
    by (rule build_resources_Inr)
  have len: "length rs = length (op_entries S)"
    using rs by (rule resolve_all_length)
  let ?opn = "fst (rs ! i)" and ?tags = "snd (rs ! i)"
  let ?a = "length (heap w) + i"
  from resolve_all_nth [OF rs assms(2,3)]
  have F: "F S path_name http_method op_spec = Inr ?opn"
    and T: "entry_tags S path_name op_spec = Inr ?tags" by simp_all
  have ne: "?tags \<noteq> []" using T by (rule entry_tags_nonempty)
  have bound: "?a < length (heap w')" using assms(2) len by (simp add: hp)
  have cell: "heap w' ! ?a = ?opn" using assms(2) len by (simp add: hp nth_append)
  have where_: "(\<exists>r. map_of resources tag = Some r
              \<and> map_of (operations r) oid = Some (PyOperation ?a))
          \<longleftrightarrow> tag \<in> set ?tags \<and> oid = operation_id ?opn \<and> \<not> overwritten F S i tag oid"
    for tag oid
    unfolding build_resources_ref [OF assms(1,2)] assms(3) takes_slot_simp [of F S path_name http_method op_spec, OF F T] by auto
  have count: "card {tag. \<exists>r. map_of resources tag = Some r
                  \<and> map_of (operations r) (operation_id ?opn) = Some (PyOperation ?a)}
            = length ?tags"
    if "distinct ?tags \<and> (\<forall>tag\<in>set ?tags. \<not> overwritten F S i tag (operation_id ?opn))"
  proof -
    have "{tag. \<exists>r. map_of resources tag = Some r
                  \<and> map_of (operations r) (operation_id ?opn) = Some (PyOperation ?a)}
        = set ?tags"
      unfolding where_ using that by auto
    with that show ?thesis by (simp add: distinct_card)
  qed
  from F T ne bound cell where_ count show ?thesis by blast
qed

text \<open>
  The theorem at the third entry of \<open>petstore\<close>, tagged \<^verbatim>\<open>pet\<close> and \<^verbatim>\<open>store\<close> with the
  operation id \<^verbatim>\<open>x\<close>: the Operation at address 2 is reachable from both Resources.
\<close>

theorem build_resources_places_operation_witness:
  "build_resources plain_from_spec (plain_spec petstore) world0
     = Inr (petstore_resources, petstore_world)
   \<and> op_entries (plain_spec petstore) ! 2 =
       (''/pet/{petId}'', ''get'',
        JDict [(''operationId'', JStr ''x''), (''tags'', JList [JStr ''pet'', JStr ''store''])])
   \<and> heap petstore_world ! 2 =
       \<lparr>operation_id = ''x'', op_path_name = ''/pet/{petId}'', op_http_method = ''get''\<rparr>
   \<and> (\<exists>r. map_of petstore_resources ''pet'' = Some r
          \<and> map_of (operations r) ''x'' = Some (PyOperation 2))
   \<and> (\<exists>r. map_of petstore_resources ''store'' = Some r
          \<and> map_of (operations r) ''x'' = Some (PyOperation 2))
   \<and> card {tag. \<exists>r. map_of petstore_resources tag = Some r
                \<and> map_of (operations r) ''x'' = Some (PyOperation 2)} = 2"
proof -
  let ?S = "plain_spec petstore"
  let ?sp = "JDict [(''operationId'', JStr ''x''), (''tags'', JList [JStr ''pet'', JStr ''store''])]"
  have i: "2 < length (op_entries ?S)" by (simp add: petstore_entries)
  have e: "op_entries ?S ! 2 = (''/pet/{petId}'', ''get'', ?sp)"
    by (simp add: petstore_entries)
  have F: "plain_from_spec ?S ''/pet/{petId}'' ''get'' ?sp =
      Inr \<lparr>operation_id = ''x'', op_path_name = ''/pet/{petId}'', op_http_method = ''get''\<rparr>"
    by (simp add: plain_from_spec_def plain_spec_def plain_resolve_def)
  have T: "entry_tags ?S ''/pet/{petId}'' ?sp = Inr [''pet'', ''store'']"
    by (simp add: entry_tags_def plain_spec_def plain_resolve_def plain_list_def)
  have last: "\<not> overwritten plain_from_spec ?S 2 tag oid" for tag oid
    by (simp add: overwritten_def petstore_entries)
  from build_resources_places_operation [OF petstore_build i e]
  obtain opn tags where
    "plain_from_spec ?S ''/pet/{petId}'' ''get'' ?sp = Inr opn"
    "entry_tags ?S ''/pet/{petId}'' ?sp = Inr tags"
    and cell: "heap petstore_world ! (length (heap world0) + 2) = opn"
    and where_: "\<forall>tag oid.
          (\<exists>r. map_of petstore_resources tag = Some r
              \<and> map_of (operations r) oid = Some (PyOperation (length (heap world0) + 2)))
          \<longleftrightarrow> tag \<in> set tags \<and> oid = operation_id opn
              \<and> \<not> overwritten plain_from_spec ?S 2 tag oid"
    and count: "distinct tags
        \<and> (\<forall>tag\<in>set tags. \<not> overwritten plain_from_spec ?S 2 tag (operation_id opn)) \<longrightarrow>
          card {tag. \<exists>r. map_of petstore_resources tag = Some r
                  \<and> map_of (operations r) (operation_id opn)
                      = Some (PyOperation (length (heap world0) + 2))}
            = length tags"
    by blast
  with F T have opn: "opn = \<lparr>operation_id = ''x'', op_path_name = ''/pet/{petId}'',
      op_http_method = ''get''\<rparr>" and tags: "tags = [''pet'', ''store'']" by simp_all
  have z: "length (heap world0) + 2 = 2" by (simp add: world0_def)
  note cell = cell [unfolded z] and where_ = where_ [unfolded z] and count = count [unfolded z]
  from cell have c1: "heap petstore_world ! 2 =
       \<lparr>operation_id = ''x'', op_path_name = ''/pet/{petId}'', op_http_method = ''get''\<rparr>"
    by (simp add: opn)
  from where_ [rule_format, of "''pet''" "''x''"]
  have c2: "\<exists>r. map_of petstore_resources ''pet'' = Some r
          \<and> map_of (operations r) ''x'' = Some (PyOperation 2)"
    by (simp add: opn tags last)
  from where_ [rule_format, of "''store''" "''x''"]
  have c3: "\<exists>r. map_of petstore_resources ''store'' = Some r
          \<and> map_of (operations r) ''x'' = Some (PyOperation 2)"
    by (simp add: opn tags last)
  from count have c4: "card {tag. \<exists>r. map_of petstore_resources tag = Some r
                \<and> map_of (operations r) ''x'' = Some (PyOperation 2)} = 2"
    by (simp add: opn tags last)
  from petstore_build e c1 c2 c3 c4 show ?thesis by blast
qed

text \<open>
  Claim C4. Let a run of \<open>build_resources\<close> return, and take an operation entry whose
  resolved tag list is empty. Then its path has a non-empty segment, the tag list the
  entry is grouped under is the single synthetic tag made of the first such segment, and
  a Resource holds the entry's Operation exactly when it is the Resource of that tag,
  under the Operation's operation id (unless a later entry overwrote that slot).
\<close>

theorem untagged_entry_first_segment:
  assumes "build_resources F S w = Inr (resources, w')"
    and "i < length (op_entries S)"
    and "op_entries S ! i = (path_name, http_method, op_spec)"
    and "resolve_list S (resolve S op_spec ''tags'' (JList [])) = []"
  shows "\<exists>opn.
      F S path_name http_method op_spec = Inr opn
    \<and> segments path_name \<noteq> []
    \<and> convert_path_to_resource path_name = Inr (hd (segments path_name))
    \<and> entry_tags S path_name op_spec = Inr [hd (segments path_name)]
    \<and> (\<forall>tag oid.
          (\<exists>r. map_of resources tag = Some r
              \<and> map_of (operations r) oid = Some (PyOperation (length (heap w) + i)))
          \<longleftrightarrow> tag = hd (segments path_name) \<and> oid = operation_id opn
              \<and> \<not> overwritten F S i tag oid)"
proof -
  from assms(1) obtain rs where rs: "resolve_all F S (op_entries S) = Inr rs"
    by (rule build_resources_Inr)
  let ?opn = "fst (rs ! i)"
  from resolve_all_nth [OF rs assms(2,3)]
  have F: "F S path_name http_method op_spec = Inr ?opn"
    and T: "entry_tags S path_name op_spec = Inr (snd (rs ! i))" by simp_all
  from T have seg: "segments path_name \<noteq> []"
    and T': "entry_tags S path_name op_spec = Inr [hd (segments path_name)]"
    unfolding entry_tags_untagged [OF assms(4)] by (simp_all split: if_splits)
  have conv: "convert_path_to_resource path_name = Inr (hd (segments path_name))"
    using seg by (rule convert_path_to_resource_segments)
  have "(\<exists>r. map_of resources tag = Some r
              \<and> map_of (operations r) oid = Some (PyOperation (length (heap w) + i)))
          \<longleftrightarrow> tag = hd (segments path_name) \<and> oid = operation_id ?opn
              \<and> \<not> overwritten F S i tag oid" for tag oid
    unfolding build_resources_ref [OF assms(1,2)] assms(3) takes_slot_simp [of F S path_name http_method op_spec, OF F T'] by auto
  with F seg conv T' show ?thesis by blast
qed

text \<open>
  The theorem at the first entry of \<open>petstore\<close>: the untagged operation under
  \<^verbatim>\<open>/pet/findByStatus\<close> is grouped under \<^verbatim>\<open>pet\<close> and is not in \<^verbatim>\<open>store\<close>.
\<close>

theorem untagged_entry_first_segment_witness:
  "build_resources plain_from_spec (plain_spec petstore) world0
     = Inr (petstore_resources, petstore_world)
   \<and> op_entries (plain_spec petstore) ! 0 =
       (''/pet/findByStatus'', ''get'', JDict [(''operationId'', JStr ''findPetsByStatus'')])
   \<and> resolve_list (plain_spec petstore)
        (resolve (plain_spec petstore) (JDict [(''operationId'', JStr ''findPetsByStatus'')])
           ''tags'' (JList [])) = []
   \<and> hd (segments ''/pet/findByStatus'') = ''pet''
   \<and> entry_tags (plain_spec petstore) ''/pet/findByStatus''
        (JDict [(''operationId'', JStr ''findPetsByStatus'')]) = Inr [''pet'']
   \<and> (\<exists>r. map_of petstore_resources ''pet'' = Some r
          \<and> map_of (operations r) ''findPetsByStatus'' = Some (PyOperation 0))
   \<and> \<not> (\<exists>r. map_of petstore_resources ''store'' = Some r
          \<and> map_of (operations r) ''findPetsByStatus'' = Some (PyOperation 0))"
proof -
  let ?S = "plain_spec petstore"
  let ?sp = "JDict [(''operationId'', JStr ''findPetsByStatus'')]"
  have i: "0 < length (op_entries ?S)" by (simp add: petstore_entries)
  have e: "op_entries ?S ! 0 = (''/pet/findByStatus'', ''get'', ?sp)"
    by (simp add: petstore_entries)
  have u: "resolve_list ?S (resolve ?S ?sp ''tags'' (JList [])) = []"
    by (simp add: plain_spec_def plain_resolve_def plain_list_def)
  have seg: "hd (segments ''/pet/findByStatus'') = ''pet''"
    by (simp add: segments_def)
  have F: "plain_from_spec ?S ''/pet/findByStatus'' ''get'' ?sp =
      Inr \<lparr>operation_id = ''findPetsByStatus'', op_path_name = ''/pet/findByStatus'',
           op_http_method = ''get''\<rparr>"
    by (simp add: plain_from_spec_def plain_spec_def plain_resolve_def)
  have z: "length (heap world0) + 0 = 0" by (simp add: world0_def)
  have keep: "\<not> overwritten plain_from_spec ?S 0 ''pet'' ''findPetsByStatus''"
    unfolding overwritten_def petstore_entries
    by (simp add: takes_slot_def plain_from_spec_def plain_spec_def plain_resolve_def
          plain_list_def entry_tags_def)
  from untagged_entry_first_segment [OF petstore_build i e u, unfolded z seg]
  obtain opn where
    "plain_from_spec ?S ''/pet/findByStatus'' ''get'' ?sp = Inr opn"
    and T: "entry_tags ?S ''/pet/findByStatus'' ?sp = Inr [''pet'']"
    and where_: "\<forall>tag oid.
          (\<exists>r. map_of petstore_resources tag = Some r
              \<and> map_of (operations r) oid = Some (PyOperation 0))
          \<longleftrightarrow> tag = ''pet'' \<and> oid = operation_id opn
              \<and> \<not> overwritten plain_from_spec ?S 0 tag oid"
    by blast
  with F have opn: "operation_id opn = ''findPetsByStatus''" by auto
  from where_ [rule_format, of "''pet''" "''findPetsByStatus''"]
  have c1: "\<exists>r. map_of petstore_resources ''pet'' = Some r
          \<and> map_of (operations r) ''findPetsByStatus'' = Some (PyOperation 0)"
    by (simp add: opn keep)
  from where_ [rule_format, of "''store''" "''findPetsByStatus''"]
  have c2: "\<not> (\<exists>r. map_of petstore_resources ''store'' = Some r
          \<and> map_of (operations r) ''findPetsByStatus'' = Some (PyOperation 0))"
    by simp
  from petstore_build e u seg T c1 c2 show ?thesis by blast
qed

text \<open>
  Claim C5. A method-level entry keyed \<^verbatim>\<open>parameters\<close> is skipped. The inner loop gives
  the same outcome with the entry as without it, wherever it stands and whatever it
  holds. \<^verbatim>\<open>from_spec\<close> is never called for it: two constructors that agree on every
  other method give the same build, even when one of them raises on \<^verbatim>\<open>parameters\<close>.
  And a run that returns has allocated exactly one Operation for every method-level
  entry that is not keyed \<^verbatim>\<open>parameters\<close>.
\<close>

theorem parameters_entry_skipped:
  "methods_loop F S p (ms @ (''parameters'', x) # ms') st = methods_loop F S p (ms @ ms') st
   \<and> ((\<forall>S' p' m sp. m \<noteq> ''parameters'' \<longrightarrow> F' S' p' m sp = F S' p' m sp) \<longrightarrow>
        build_resources F' S w = build_resources F S w)
   \<and> (build_resources F S w = Inr (resources, w') \<longrightarrow>
        length (heap w') = length (heap w) +
          sum_list (map (\<lambda>pe. length (filter (\<lambda>me. fst me \<noteq> ''parameters'')
                                        (resolve_iteritems S (snd pe))))
                     (resolve_iteritems S (resolve S (spec_dict S) ''paths'' (JDict [])))))"
proof -
  have a: "methods_loop F S p (ms @ (''parameters'', x) # ms') st
      = methods_loop F S p (ms @ ms') st"
    by (simp add: methods_loop_entries)
  have b: "build_resources F' S w = build_resources F S w"
    if agree: "\<forall>S' p' m sp. m \<noteq> ''parameters'' \<longrightarrow> F' S' p' m sp = F S' p' m sp"
  proof -
    have "\<forall>e\<in>set (op_entries S). case e of (p, m, sp) \<Rightarrow> F' S p m sp = F S p m sp"
      using agree op_entries_not_parameters by fastforce
    then have "resolve_all F' S (op_entries S) = resolve_all F S (op_entries S)"
      by (rule resolve_all_cong)
    then show ?thesis by (simp add: build_resources_eq)
  qed
  have c: "length (heap w') = length (heap w) +
          sum_list (map (\<lambda>pe. length (filter (\<lambda>me. fst me \<noteq> ''parameters'')
                                        (resolve_iteritems S (snd pe))))
                     (resolve_iteritems S (resolve S (spec_dict S) ''paths'' (JDict []))))"
    if "build_resources F S w = Inr (resources, w')"
  proof -
    from that obtain rs where rs: "resolve_all F S (op_entries S) = Inr rs"
      and hp: "heap w' = heap w @ map fst rs"
      by (rule build_resources_Inr)
    have "length rs = length (op_entries S)" using rs by (rule resolve_all_length)
    with hp show ?thesis by (simp add: length_op_entries)
  qed
  from a b c show ?thesis by blast
qed

text \<open>
  The theorem at \<open>petstore\<close>, whose first path has a \<^verbatim>\<open>parameters\<close> entry, with a
  constructor that raises when called for it: the build is the same and three Operations
  are allocated for the four method-level entries.
\<close>

theorem parameters_entry_skipped_witness:
  "build_resources strict_from_spec (plain_spec petstore) world0
     = Inr (petstore_resources, petstore_world)
   \<and> length (heap petstore_world) = 3
   \<and> methods_loop strict_from_spec (plain_spec petstore) ''/pet/findByStatus''
        [(''parameters'', JList []),
         (''get'', JDict [(''operationId'', JStr ''findPetsByStatus'')])] ([], [])
      = methods_loop strict_from_spec (plain_spec petstore) ''/pet/findByStatus''
        [(''get'', JDict [(''operationId'', JStr ''findPetsByStatus'')])] ([], [])"
proof -
  let ?S = "plain_spec petstore"
  have agree: "\<forall>S' p' m sp. m \<noteq> ''parameters'' \<longrightarrow>
      strict_from_spec S' p' m sp = plain_from_spec S' p' m sp"
    by (simp add: strict_from_spec_def)
  note c5 = parameters_entry_skipped [of strict_from_spec ?S "''/pet/findByStatus''" "[]" "JList []"
      "[(''get'', JDict [(''operationId'', JStr ''findPetsByStatus'')])]" "([], [])"
      strict_from_spec world0 petstore_resources petstore_world]
  note c5' = parameters_entry_skipped [of plain_from_spec ?S "''/pet/findByStatus''" "[]" "JList []"
      "[(''get'', JDict [(''operationId'', JStr ''findPetsByStatus'')])]" "([], [])"
      strict_from_spec world0 petstore_resources petstore_world]
  from c5' agree have b: "build_resources strict_from_spec ?S world0
      = Inr (petstore_resources, petstore_world)"
    by (simp only: petstore_build)
  with c5 have "length (heap petstore_world) = length (heap world0) +
          sum_list (map (\<lambda>pe. length (filter (\<lambda>me. fst me \<noteq> ''parameters'')
                                        (resolve_iteritems ?S (snd pe))))
                     (resolve_iteritems ?S (resolve ?S (spec_dict ?S) ''paths'' (JDict []))))"
    by blast
  then have l: "length (heap petstore_world) = 3"
    by (simp add: world0_def plain_spec_def petstore_def plain_resolve_def plain_iteritems_def)
  from c5 have "methods_loop strict_from_spec ?S ''/pet/findByStatus''
        ([] @ (''parameters'', JList []) #
         [(''get'', JDict [(''operationId'', JStr ''findPetsByStatus'')])]) ([], [])
      = methods_loop strict_from_spec ?S ''/pet/findByStatus''
        ([] @ [(''get'', JDict [(''operationId'', JStr ''findPetsByStatus'')])]) ([], [])"
    by blast
  then have m: "methods_loop strict_from_spec ?S ''/pet/findByStatus''
        [(''parameters'', JList []),
         (''get'', JDict [(''operationId'', JStr ''findPetsByStatus'')])] ([], [])
      = methods_loop strict_from_spec ?S ''/pet/findByStatus''
        [(''get'', JDict [(''operationId'', JStr ''findPetsByStatus'')])] ([], [])"
    by (simp only: append_Nil)
  from b l m show ?thesis by blast
qed

text \<open>
  Claim C6. Let every operation entry be processed without an exception, and let two
  entries, one before the other, take the same slot: the same tag and the same operation
  id. Then the build returns; the Resource of that tag holds under that operation id the
  Operation of an entry that takes the slot and is not before the later of the two, and
  it is the later one itself when nothing after it takes the slot; the Operation of the
  earlier entry is nowhere in that Resource. The records logged by the run are one
  \<^verbatim>\<open>Building resource\<close> line per Resource and nothing else.
\<close>

theorem colliding_operation_id_last_wins:
  assumes "list_all (entry_ok F S) (op_entries S)"
    and "i < j" and "j < length (op_entries S)"
    and "takes_slot F S tag oid (op_entries S ! i)"
    and "takes_slot F S tag oid (op_entries S ! j)"
  shows "\<exists>resources w' r k.
      build_resources F S w = Inr (resources, w')
    \<and> map_of resources tag = Some r
    \<and> map_of (operations r) oid = Some (PyOperation (length (heap w) + k))
    \<and> j \<le> k \<and> k < length (op_entries S)
    \<and> takes_slot F S tag oid (op_entries S ! k)
    \<and> (\<not> overwritten F S j tag oid \<longrightarrow> k = j)
    \<and> (\<forall>oid'. map_of (operations r) oid' \<noteq> Some (PyOperation (length (heap w) + i)))
    \<and> debug_log w' = debug_log w @ map building (map fst resources)"
proof -
  from assms(1) obtain rs where rs: "resolve_all F S (op_entries S) = Inr rs"
    using resolve_all_ok by blast
  have len: "length rs = length (op_entries S)"
    using rs by (rule resolve_all_length)
  obtain resources w' where b: "build_resources F S w = Inr (resources, w')"
    using rs by (simp add: build_resources_eq)
  from b obtain rs' where "resolve_all F S (op_entries S) = Inr rs'"
    and lg: "debug_log w' = debug_log w @ map building (map fst resources)"
    by (rule build_resources_Inr)
  have hj: "hit rs tag oid j"
    using takes_slot_hit [OF rs assms(3)] assms(5) by simp
  from ex_last_hit [of j rs tag oid] hj assms(3) len
  obtain k where k: "j \<le> k" "k < length rs" "hit rs tag oid k"
    and last: "\<forall>l. k < l \<and> l < length rs \<longrightarrow> \<not> hit rs tag oid l"
    by auto
  have kt: "takes_slot F S tag oid (op_entries S ! k)"
    using takes_slot_hit [OF rs] k len by simp
  have nk: "\<not> overwritten F S k tag oid"
    unfolding overwritten_hit [OF rs] using last by blast
  from k len have k': "k < length (op_entries S)" by simp
  from build_resources_ref [OF b k', of tag oid] kt nk
  obtain r where r: "map_of resources tag = Some r"
    "map_of (operations r) oid = Some (PyOperation (length (heap w) + k))"
    by blast
  have kj: "k = j" if "\<not> overwritten F S j tag oid"
  proof (rule ccontr)
    assume "k \<noteq> j"
    with k have "j < k" by simp
    with k have "overwritten F S j tag oid"
      unfolding overwritten_hit [OF rs] by blast
    with that show False by simp
  qed
  have gone: "map_of (operations r) oid' \<noteq> Some (PyOperation (length (heap w) + i))" for oid'
  proof
    assume "map_of (operations r) oid' = Some (PyOperation (length (heap w) + i))"
    with r have "\<exists>r. map_of resources tag = Some r
        \<and> map_of (operations r) oid' = Some (PyOperation (length (heap w) + i))" by blast
    moreover have i': "i < length (op_entries S)" using assms(2,3) by simp
    ultimately have t: "takes_slot F S tag oid' (op_entries S ! i)"
      and no: "\<not> overwritten F S i tag oid'"
      using build_resources_ref [OF b i', of tag oid'] by simp_all
    from t assms(4) have "oid' = oid"
      by (auto simp: takes_slot_def split: prod.splits sum.splits)
    moreover have "overwritten F S i tag oid"
      unfolding overwritten_hit [OF rs] using hj assms(2,3) len by auto
    ultimately show False using no by simp
  qed
  from b r k(1) k' kt kj gone lg show ?thesis by blast
qed

text \<open>
  The theorem at \<open>dup_doc\<close>: the Operation of the second entry (address 1) is the one
  under \<^verbatim>\<open>dup\<close>, and the only record logged is the one for \<^verbatim>\<open>pet\<close>.
\<close>

theorem colliding_operation_id_last_wins_witness:
  "list_all (entry_ok plain_from_spec (plain_spec dup_doc)) (op_entries (plain_spec dup_doc))
   \<and> takes_slot plain_from_spec (plain_spec dup_doc) ''pet'' ''dup''
        (op_entries (plain_spec dup_doc) ! 0)
   \<and> takes_slot plain_from_spec (plain_spec dup_doc) ''pet'' ''dup''
        (op_entries (plain_spec dup_doc) ! 1)
   \<and> (\<exists>resources w' r.
        build_resources plain_from_spec (plain_spec dup_doc) world0 = Inr (resources, w')
      \<and> map_of resources ''pet'' = Some r
      \<and> map_of (operations r) ''dup'' = Some (PyOperation 1)
      \<and> debug_log w' = [building ''pet''])"
proof -
  let ?S = "plain_spec dup_doc"
  have ok: "list_all (entry_ok plain_from_spec ?S) (op_entries ?S)"
    unfolding dup_entries
    by (simp add: entry_ok_def plain_from_spec_def plain_spec_def
          plain_resolve_def plain_list_def entry_tags_def)
  have t0: "takes_slot plain_from_spec ?S ''pet'' ''dup'' (op_entries ?S ! 0)"
    unfolding dup_entries
    by (simp add: takes_slot_def plain_from_spec_def plain_spec_def
          plain_resolve_def plain_list_def entry_tags_def)
  have t1: "takes_slot plain_from_spec ?S ''pet'' ''dup'' (op_entries ?S ! 1)"
    unfolding dup_entries
    by (simp add: takes_slot_def plain_from_spec_def plain_spec_def
          plain_resolve_def plain_list_def entry_tags_def)
  have ij: "(0::nat) < 1" and j: "1 < length (op_entries ?S)"
    by (simp_all add: dup_entries)
  from colliding_operation_id_last_wins [OF ok ij j t0 t1, of world0]
  obtain resources w' r k where
    b: "build_resources plain_from_spec ?S world0 = Inr (resources, w')"
    and r: "map_of resources ''pet'' = Some r"
    and v: "map_of (operations r) ''dup'' = Some (PyOperation (length (heap world0) + k))"
    and k: "1 \<le> k" "k < length (op_entries ?S)"
    and lg: "debug_log w' = debug_log world0 @ map building (map fst resources)"
    by blast
  from k have "k = 1" by (simp add: dup_entries)
  with v have v': "map_of (operations r) ''dup'' = Some (PyOperation 1)"
    by (simp add: world0_def)
  have "map fst resources = [''pet'']"
    using b unfolding build_resources_eq [of plain_from_spec ?S world0] dup_entries
    by (auto simp: plain_from_spec_def plain_spec_def plain_resolve_def plain_list_def
        entry_tags_def setitem_default_def wrap_def world0_def split: sum.splits)
  with lg have lg': "debug_log w' = [building ''pet'']" by (simp add: world0_def)
  from ok t0 t1 b r v' lg' show ?thesis by blast
qed

text \<open>
  Claim C8. Let a run of \<open>build_resources\<close> return. Then a run on the same specification
  from any other store returns too, with the same tags and, for each tag, the same
  operation ids in its Resource (even in the same order); the references stored under
  them may differ.
\<close>

theorem build_resources_keys_deterministic:
  assumes "build_resources F S w1 = Inr (resources1, w1')"
  shows "\<exists>resources2 w2'.
      build_resources F S w2 = Inr (resources2, w2')
    \<and> key_view resources2 = key_view resources1
    \<and> set (map fst resources2) = set (map fst resources1)
    \<and> (\<forall>tag r1 r2. map_of resources1 tag = Some r1 \<and> map_of resources2 tag = Some r2 \<longrightarrow>
          set (map fst (operations r2)) = set (map fst (operations r1)))"
proof -
  from assms obtain rs where rs: "resolve_all F S (op_entries S) = Inr rs"
    and r1: "resources1 = wrap (place (length (heap w1)) rs [])"
    by (rule build_resources_Inr)
  let ?r2 = "wrap (place (length (heap w2)) rs [])"
  obtain w2' where b2: "build_resources F S w2 = Inr (?r2, w2')"
    using rs by (simp add: build_resources_eq)
  have "kv (place (length (heap w2)) rs []) = kv (place (length (heap w1)) rs [])"
    by (rule kv_place_cong) simp
  then have k: "key_view ?r2 = key_view resources1"
    by (simp add: r1 key_view_wrap)
  have fst_kv: "map fst (key_view rsrc) = map fst rsrc" for rsrc
    by (induction rsrc) (auto simp: key_view_def)
  have tags: "set (map fst ?r2) = set (map fst resources1)"
    using k fst_kv by metis
  have kmap: "map_of (key_view rsrc) tag = map_option (\<lambda>r. map fst (operations r)) (map_of rsrc tag)"
    for rsrc tag
    by (induction rsrc) (auto simp: key_view_def)
  have ops: "set (map fst (operations r2)) = set (map fst (operations r1))"
    if "map_of resources1 tag = Some r1 \<and> map_of ?r2 tag = Some r2" for tag r1 r2
  proof -
    from that have "map_of (key_view resources1) tag = Some (map fst (operations r1))"
      "map_of (key_view ?r2) tag = Some (map fst (operations r2))"
      by (simp_all add: kmap)
    with k show ?thesis by simp
  qed
  from b2 k tags ops show ?thesis by blast
qed

text \<open>
  The theorem at \<open>petstore\<close>, the second run starting from the store the first one
  left: the keys agree and the Resources differ, since the second run allocated new
  Operations.
\<close>

theorem build_resources_keys_deterministic_witness:
  "build_resources plain_from_spec (plain_spec petstore) world0
     = Inr (petstore_resources, petstore_world)
   \<and> (\<exists>resources2 w2'.
        build_resources plain_from_spec (plain_spec petstore) petstore_world
          = Inr (resources2, w2')
      \<and> key_view resources2
          = [(''pet'', [''findPetsByStatus'', ''x'']), (''store'', [''getInventory'', ''x''])]
      \<and> map_of resources2 ''pet'' \<noteq> map_of petstore_resources ''pet'')"
proof -
  from build_resources_keys_deterministic [OF petstore_build, of petstore_world]
  obtain resources2 w2' where
    b: "build_resources plain_from_spec (plain_spec petstore) petstore_world
          = Inr (resources2, w2')"
    and k: "key_view resources2 = key_view petstore_resources"
    by blast
  have "key_view petstore_resources
      = [(''pet'', [''findPetsByStatus'', ''x'']), (''store'', [''getInventory'', ''x''])]"
    by (simp add: key_view_def petstore_resources_def)
  with k have k': "key_view resources2
      = [(''pet'', [''findPetsByStatus'', ''x'']), (''store'', [''getInventory'', ''x''])]"
    by simp
  from b have "map_of resources2 ''pet'' \<noteq> map_of petstore_resources ''pet''"
    by (auto simp: petstore_rebuild petstore_resources_def)
  with petstore_build b k' show ?thesis by blast
qed

text \<open>
  Claim C9. In the mapping a run of \<open>build_resources\<close> returns, every Resource has its
  key as its name and holds at least one operation; the keys are distinct.
\<close>

theorem build_resources_named_nonempty:
  assumes "build_resources F S w = Inr (resources, w')"
  shows "(\<forall>kr\<in>set resources. name (snd kr) = fst kr \<and> operations (snd kr) \<noteq> [])
       \<and> distinct (map fst resources)"
proof -
  from assms obtain rs where res: "resources = wrap (place (length (heap w)) rs [])"
    by (rule build_resources_Inr)
  let ?t = "place (length (heap w)) rs []"
  have "buckets_filled ?t"
    by (rule buckets_filled_place) (simp add: buckets_filled_def)
  then have "\<forall>kr\<in>set (wrap ?t). name (snd kr) = fst kr \<and> operations (snd kr) \<noteq> []"
    by (auto simp: wrap_def buckets_filled_def list_all_iff)
  moreover have "distinct (map fst (wrap ?t))"
    unfolding map_fst_wrap by (rule distinct_place) simp
  ultimately show ?thesis by (simp add: res)
qed

text \<open>
  The theorem at the second Resource of the build of \<open>petstore\<close>.
\<close>

theorem build_resources_named_nonempty_witness:
  "build_resources plain_from_spec (plain_spec petstore) world0
     = Inr (petstore_resources, petstore_world)
   \<and> petstore_resources ! 1 \<in> set petstore_resources
   \<and> fst (petstore_resources ! 1) = ''store''
   \<and> name (snd (petstore_resources ! 1)) = ''store''
   \<and> operations (snd (petstore_resources ! 1)) \<noteq> []"
proof -
  have m: "petstore_resources ! 1 \<in> set petstore_resources"
    by (simp add: petstore_resources_def)
  have f: "fst (petstore_resources ! 1) = ''store''"
    by (simp add: petstore_resources_def)
  from build_resources_named_nonempty [OF petstore_build] m
  have "name (snd (petstore_resources ! 1)) = fst (petstore_resources ! 1)
      \<and> operations (snd (petstore_resources ! 1)) \<noteq> []"
    by blast
  with petstore_build m f show ?thesis by simp
qed

end
